theory Spec2Isabelle
  imports Main "HOL-Library.Word"
begin

unbundle bit_operations_syntax

section \<open>Constants of usbd\_core.h\<close>

text \<open>
  The bmRequestType masks are C expressions of type \<open>int\<close>: a small constant shifted
  left. They are far from the range where a shift of an \<open>int\<close> overflows, so \<open>int\<close>
  with \<open>push_bit\<close> is the source's arithmetic.
\<close>

definition USB_REQ_DIRECTION :: int where
  "USB_REQ_DIRECTION = push_bit 7 1"

definition USB_REQ_HOSTTODEV :: int where
  "USB_REQ_HOSTTODEV = push_bit 7 0"

definition USB_REQ_DEVTOHOST :: int where
  "USB_REQ_DEVTOHOST = push_bit 7 1"

definition USB_REQ_TYPE :: int where
  "USB_REQ_TYPE = push_bit 5 3"

definition USB_REQ_STANDARD :: int where
  "USB_REQ_STANDARD = push_bit 5 0"

definition USB_REQ_CLASS :: int where
  "USB_REQ_CLASS = push_bit 5 1"

definition USB_REQ_VENDOR :: int where
  "USB_REQ_VENDOR = push_bit 5 2"

definition USB_REQ_RECIPIENT :: int where
  "USB_REQ_RECIPIENT = push_bit 0 3"

definition USB_REQ_DEVICE :: int where
  "USB_REQ_DEVICE = push_bit 0 0"

definition USB_REQ_INTERFACE :: int where
  "USB_REQ_INTERFACE = push_bit 0 1"

definition USB_REQ_ENDPOINT :: int where
  "USB_REQ_ENDPOINT = push_bit 0 2"

definition USB_REQ_OTHER :: int where
  "USB_REQ_OTHER = push_bit 0 3"

definition usbd_evt_reset :: nat where "usbd_evt_reset = 0"
definition usbd_evt_sof :: nat where "usbd_evt_sof = 1"
definition usbd_evt_susp :: nat where "usbd_evt_susp = 2"
definition usbd_evt_wkup :: nat where "usbd_evt_wkup = 3"
definition usbd_evt_eptx :: nat where "usbd_evt_eptx = 4"
definition usbd_evt_eprx :: nat where "usbd_evt_eprx = 5"
definition usbd_evt_epsetup :: nat where "usbd_evt_epsetup = 6"
definition usbd_evt_error :: nat where "usbd_evt_error = 7"
definition usbd_evt_esof :: nat where "usbd_evt_esof = 8"
definition usbd_evt_count :: nat where "usbd_evt_count = 9"

datatype usbd_machine_state =
    usbd_state_disabled
  | usbd_state_disconnected
  | usbd_state_default
  | usbd_state_addressed
  | usbd_state_configured

datatype usbd_ctl_state =
    usbd_ctl_idle
  | usbd_ctl_rxdata
  | usbd_ctl_txdata
  | usbd_ctl_ztxdata
  | usbd_ctl_lastdata
  | usbd_ctl_statusin
  | usbd_ctl_statusout

datatype usbd_respond = usbd_fail | usbd_ack | usbd_nak

section \<open>Structure layout\<close>

text \<open>
  \<open>usbd_init\<close> uses \<open>__builtin_offsetof(usbd_ctlreq, data)\<close>, a number the compiler
  derives from the declaration of \<open>struct _usbd_ctlreq\<close>. The declaration carries no
  packing attribute, so the members are laid out in declaration order, each at the
  lowest offset after the previous member that is a multiple of its alignment, and a
  fixed-width integer is aligned to its size. A flexible array member has no size of its
  own and the alignment of its element.
\<close>

datatype ctype = Uint8 | Uint16 | Uint32 | Flexible ctype

fun sizeof :: "ctype \<Rightarrow> nat" where
  "sizeof Uint8 = 1"
| "sizeof Uint16 = 2"
| "sizeof Uint32 = 4"
| "sizeof (Flexible t) = 0"

fun alignof :: "ctype \<Rightarrow> nat" where
  "alignof Uint8 = 1"
| "alignof Uint16 = 2"
| "alignof Uint32 = 4"
| "alignof (Flexible t) = alignof t"

definition align_up :: "nat \<Rightarrow> nat \<Rightarrow> nat" where
  "align_up n a = ((n + a - 1) div a) * a"

fun member_offsets :: "nat \<Rightarrow> (string \<times> ctype) list \<Rightarrow> (string \<times> nat) list" where
  "member_offsets pos [] = []"
| "member_offsets pos ((name, t) # ms) =
     (let off = align_up pos (alignof t)
      in (name, off) # member_offsets (off + sizeof t) ms)"

definition offsetof :: "(string \<times> ctype) list \<Rightarrow> string \<Rightarrow> nat option" where
  "offsetof ms name = map_of (member_offsets 0 ms) name"

definition usbd_ctlreq_members :: "(string \<times> ctype) list" where
  "usbd_ctlreq_members =
     [(''bmRequestType'', Uint8),
      (''bRequest'', Uint8),
      (''wValue'', Uint16),
      (''wIndex'', Uint16),
      (''wLength'', Uint16),
      (''data'', Flexible Uint8)]"

text \<open>The value of \<open>__builtin_offsetof(usbd_ctlreq, data)\<close>, of type \<open>size_t\<close>.\<close>

definition offsetof_usbd_ctlreq_data :: "32 word" where
  "offsetof_usbd_ctlreq_data =
     (case offsetof usbd_ctlreq_members ''data'' of Some n \<Rightarrow> of_nat n | None \<Rightarrow> 0)"

section \<open>Data structures\<close>

text \<open>
  Pointers to data and to callback functions are addresses; the null pointer is 0.
\<close>

type_synonym addr = "32 word"

record usbd_status =
  data_buf :: addr
  data_ptr :: addr
  data_count :: "16 word"
  data_maxsize :: "16 word"
  ep0size :: "8 word"
  device_cfg :: "8 word"
  device_state :: "8 word"
  control_state :: "8 word"

text \<open>
  The driver call table. An operation acts on the peripheral, whose state \<open>'hw\<close> is the
  driver's own: no operation modelled here receives the device structure. The \<open>poll\<close>
  member, the only one that does, is called by \<open>usbd_poll\<close> alone, whose body is not part
  of the header, and it is left out of the table.
\<close>

record 'hw usbd_driver =
  enable :: "bool \<Rightarrow> 'hw \<Rightarrow> 'hw"
  reset :: "'hw \<Rightarrow> 'hw"
  connect :: "bool \<Rightarrow> 'hw \<Rightarrow> 'hw"
  setaddr :: "8 word \<Rightarrow> 'hw \<Rightarrow> 'hw"
  ep_config :: "8 word \<Rightarrow> 8 word \<Rightarrow> 16 word \<Rightarrow> 'hw \<Rightarrow> bool \<times> 'hw"
  ep_deconfig :: "8 word \<Rightarrow> 'hw \<Rightarrow> 'hw"
  ep_read :: "8 word \<Rightarrow> addr \<Rightarrow> 16 word \<Rightarrow> 'hw \<Rightarrow> 32 word \<times> 'hw"
  ep_write :: "8 word \<Rightarrow> addr \<Rightarrow> 16 word \<Rightarrow> 'hw \<Rightarrow> 32 word \<times> 'hw"
  ep_setstall :: "8 word \<Rightarrow> bool \<Rightarrow> 'hw \<Rightarrow> 'hw"
  ep_isstalled :: "8 word \<Rightarrow> 'hw \<Rightarrow> bool \<times> 'hw"
  frame_no :: "'hw \<Rightarrow> 16 word \<times> 'hw"
  get_serialno_desc :: "addr \<Rightarrow> 'hw \<Rightarrow> 16 word \<times> 'hw"

text \<open>
  The device structure. \<open>events\<close> is declared with \<open>usbd_evt_count\<close> entries and
  \<open>endpoint\<close> with 8; \<open>usbd_device_sized\<close> states the two declared sizes.
\<close>

record 'hw usbd_device =
  driver :: "'hw usbd_driver"
  control_callback :: addr
  complete_callback :: addr
  config_callback :: addr
  descriptor_callback :: addr
  events :: "addr list"
  endpoint :: "addr list"
  status :: usbd_status

definition usbd_device_sized :: "'hw usbd_device \<Rightarrow> bool" where
  "usbd_device_sized dev \<longleftrightarrow>
     length (events dev) = usbd_evt_count \<and> length (endpoint dev) = 8"

section \<open>Initialisation\<close>

text \<open>
  In \<open>bsize - __builtin_offsetof(usbd_ctlreq, data)\<close> the 16-bit \<open>bsize\<close> is converted to
  \<open>size_t\<close>, the subtraction is unsigned, and the assignment to the 16-bit
  \<open>data_maxsize\<close> keeps the low 16 bits.
\<close>

definition usbd_init ::
  "'hw usbd_device \<Rightarrow> 'hw usbd_driver \<Rightarrow> 8 word \<Rightarrow> addr \<Rightarrow> 16 word \<Rightarrow> 'hw usbd_device" where
  "usbd_init dev drv ep0sz buffer bsize =
     (let dev1 = dev\<lparr>driver := drv\<rparr>;
          dev2 = dev1\<lparr>status := (status dev1)\<lparr>ep0size := ep0sz\<rparr>\<rparr>;
          dev3 = dev2\<lparr>status := (status dev2)\<lparr>data_ptr := buffer\<rparr>\<rparr>;
          dev4 = dev3\<lparr>status := (status dev3)\<lparr>data_buf := buffer\<rparr>\<rparr>
      in dev4\<lparr>status := (status dev4)
           \<lparr>data_maxsize := ucast ((ucast bsize :: 32 word) - offsetof_usbd_ctlreq_data)\<rparr>\<rparr>)"

section \<open>Callback registration\<close>

text \<open>
  A store through an array index. C gives no meaning to a store outside the array, so
  the model makes it a fault; no function of the header checks an index itself.
\<close>

datatype fault = OutOfBounds

definition array_store :: "'a list \<Rightarrow> nat \<Rightarrow> 'a \<Rightarrow> fault + 'a list" where
  "array_store xs i v = (if i < length xs then Inr (xs[i := v]) else Inl OutOfBounds)"

definition usbd_reg_control :: "'hw usbd_device \<Rightarrow> addr \<Rightarrow> 'hw usbd_device" where
  "usbd_reg_control dev callback = dev\<lparr>control_callback := callback\<rparr>"

definition usbd_reg_config :: "'hw usbd_device \<Rightarrow> addr \<Rightarrow> 'hw usbd_device" where
  "usbd_reg_config dev callback = dev\<lparr>config_callback := callback\<rparr>"

definition usbd_reg_descr :: "'hw usbd_device \<Rightarrow> addr \<Rightarrow> 'hw usbd_device" where
  "usbd_reg_descr dev callback = dev\<lparr>descriptor_callback := callback\<rparr>"

definition usbd_reg_endpoint ::
  "'hw usbd_device \<Rightarrow> 8 word \<Rightarrow> addr \<Rightarrow> fault + 'hw usbd_device" where
  "usbd_reg_endpoint dev ep callback =
     (case array_store (endpoint dev) (unat (ep AND 0x07)) callback of
        Inl e \<Rightarrow> Inl e
      | Inr tab \<Rightarrow> Inr (dev\<lparr>endpoint := tab\<rparr>))"

definition usbd_reg_event ::
  "'hw usbd_device \<Rightarrow> 8 word \<Rightarrow> addr \<Rightarrow> fault + 'hw usbd_device" where
  "usbd_reg_event dev evt callback =
     (case array_store (events dev) (unat evt) callback of
        Inl e \<Rightarrow> Inl e
      | Inr tab \<Rightarrow> Inr (dev\<lparr>events := tab\<rparr>))"

section \<open>Endpoint wrappers\<close>

text \<open>
  The wrappers run on the device structure together with the peripheral. Each reads
  \<open>dev->driver\<close> and calls one member of the table. \<open>usbd_ep_write\<close> and
  \<open>usbd_ep_read\<close> are declared to return \<open>uint16_t\<close> while the driver operations
  return \<open>int32_t\<close>: the return statement converts, keeping the low 16 bits.
\<close>

record 'hw usbd_system =
  device :: "'hw usbd_device"
  hardware :: 'hw

definition usbd_ep_config ::
  "8 word \<Rightarrow> 8 word \<Rightarrow> 16 word \<Rightarrow> 'hw usbd_system \<Rightarrow> bool \<times> 'hw usbd_system" where
  "usbd_ep_config ep eptype epsize s =
     (case ep_config (driver (device s)) ep eptype epsize (hardware s) of
        (r, h) \<Rightarrow> (r, s\<lparr>hardware := h\<rparr>))"

definition usbd_ep_deconfig :: "8 word \<Rightarrow> 'hw usbd_system \<Rightarrow> 'hw usbd_system" where
  "usbd_ep_deconfig ep s = s\<lparr>hardware := ep_deconfig (driver (device s)) ep (hardware s)\<rparr>"

definition usbd_ep_write ::
  "8 word \<Rightarrow> addr \<Rightarrow> 16 word \<Rightarrow> 'hw usbd_system \<Rightarrow> 16 word \<times> 'hw usbd_system" where
  "usbd_ep_write ep buf blen s =
     (case ep_write (driver (device s)) ep buf blen (hardware s) of
        (r, h) \<Rightarrow> (ucast r, s\<lparr>hardware := h\<rparr>))"

definition usbd_ep_read ::
  "8 word \<Rightarrow> addr \<Rightarrow> 16 word \<Rightarrow> 'hw usbd_system \<Rightarrow> 16 word \<times> 'hw usbd_system" where
  "usbd_ep_read ep buf blen s =
     (case ep_read (driver (device s)) ep buf blen (hardware s) of
        (r, h) \<Rightarrow> (ucast r, s\<lparr>hardware := h\<rparr>))"

definition usbd_ep_stall :: "8 word \<Rightarrow> 'hw usbd_system \<Rightarrow> 'hw usbd_system" where
  "usbd_ep_stall ep s =
     s\<lparr>hardware := ep_setstall (driver (device s)) ep True (hardware s)\<rparr>"

definition usbd_ep_unstall :: "8 word \<Rightarrow> 'hw usbd_system \<Rightarrow> 'hw usbd_system" where
  "usbd_ep_unstall ep s =
     s\<lparr>hardware := ep_setstall (driver (device s)) ep False (hardware s)\<rparr>"

subsection \<open>Observing the calls made through the table\<close>

text \<open>
  To count the calls a wrapper makes, any driver can be run under a recorder: the
  recording driver keeps the peripheral of the driver it wraps next to the list of the
  operations invoked so far (oldest first) and otherwise behaves as that driver does.
\<close>

datatype drv_call =
    Call_enable bool
  | Call_reset
  | Call_connect bool
  | Call_setaddr "8 word"
  | Call_ep_config "8 word" "8 word" "16 word"
  | Call_ep_deconfig "8 word"
  | Call_ep_read "8 word" addr "16 word"
  | Call_ep_write "8 word" addr "16 word"
  | Call_ep_setstall "8 word" bool
  | Call_ep_isstalled "8 word"
  | Call_frame_no
  | Call_get_serialno_desc addr

definition recording :: "'hw usbd_driver \<Rightarrow> ('hw \<times> drv_call list) usbd_driver" where
  "recording d =
     \<lparr>enable = (\<lambda>b (h, l). (enable d b h, l @ [Call_enable b])),
      reset = (\<lambda>(h, l). (reset d h, l @ [Call_reset])),
      connect = (\<lambda>b (h, l). (connect d b h, l @ [Call_connect b])),
      setaddr = (\<lambda>a (h, l). (setaddr d a h, l @ [Call_setaddr a])),
      ep_config = (\<lambda>ep t sz (h, l).
         (case ep_config d ep t sz h of (r, h') \<Rightarrow> (r, (h', l @ [Call_ep_config ep t sz])))),
      ep_deconfig = (\<lambda>ep (h, l). (ep_deconfig d ep h, l @ [Call_ep_deconfig ep])),
      ep_read = (\<lambda>ep buf blen (h, l).
         (case ep_read d ep buf blen h of (r, h') \<Rightarrow> (r, (h', l @ [Call_ep_read ep buf blen])))),
      ep_write = (\<lambda>ep buf blen (h, l).
         (case ep_write d ep buf blen h of (r, h') \<Rightarrow> (r, (h', l @ [Call_ep_write ep buf blen])))),
      ep_setstall = (\<lambda>ep b (h, l). (ep_setstall d ep b h, l @ [Call_ep_setstall ep b])),
      ep_isstalled = (\<lambda>ep (h, l).
         (case ep_isstalled d ep h of (r, h') \<Rightarrow> (r, (h', l @ [Call_ep_isstalled ep])))),
      frame_no = (\<lambda>(h, l). (case frame_no d h of (r, h') \<Rightarrow> (r, (h', l @ [Call_frame_no])))),
      get_serialno_desc = (\<lambda>buf (h, l).
         (case get_serialno_desc d buf h of
            (r, h') \<Rightarrow> (r, (h', l @ [Call_get_serialno_desc buf]))))\<rparr>"

subsection \<open>Concrete devices\<close>

text \<open>
  A driver without a peripheral behind it, whose operations succeed and transfer
  nothing, a variant whose \<open>ep_read\<close> reports an error and whose \<open>ep_config\<close> fails,
  and a zeroed device structure, used to evaluate the functions above.
\<close>

definition idle_driver :: "unit usbd_driver" where
  "idle_driver =
     \<lparr>enable = (\<lambda>b h. h),
      reset = (\<lambda>h. h),
      connect = (\<lambda>b h. h),
      setaddr = (\<lambda>a h. h),
      ep_config = (\<lambda>ep t sz h. (True, h)),
      ep_deconfig = (\<lambda>ep h. h),
      ep_read = (\<lambda>ep buf blen h. (0, h)),
      ep_write = (\<lambda>ep buf blen h. (0, h)),
      ep_setstall = (\<lambda>ep b h. h),
      ep_isstalled = (\<lambda>ep h. (False, h)),
      frame_no = (\<lambda>h. (0, h)),
      get_serialno_desc = (\<lambda>buf h. (0, h))\<rparr>"

definition failing_driver :: "unit usbd_driver" where
  "failing_driver =
     idle_driver\<lparr>ep_config := (\<lambda>ep t sz h. (False, h)),
                 ep_read := (\<lambda>ep buf blen h. (- 1, h))\<rparr>"

definition zero_status :: usbd_status where
  "zero_status =
     \<lparr>data_buf = 0, data_ptr = 0, data_count = 0, data_maxsize = 0,
      ep0size = 0, device_cfg = 0, device_state = 0, control_state = 0\<rparr>"

definition zero_device :: "'hw usbd_driver \<Rightarrow> 'hw usbd_device" where
  "zero_device d =
     \<lparr>driver = d, control_callback = 0, complete_callback = 0, config_callback = 0,
      descriptor_callback = 0, events = replicate 9 0, endpoint = replicate 8 0,
      status = zero_status\<rparr>"

section \<open>Control requests\<close>

text \<open>
  \<open>struct _usbd_ctlreq\<close>: the 8-byte header of a SETUP packet followed by the payload,
  a flexible array of bytes.
\<close>

record usbd_ctlreq =
  bmRequestType :: "8 word"
  bRequest :: "8 word"
  wValue :: "16 word"
  wIndex :: "16 word"
  wLength :: "16 word"
  data :: "8 word list"

text \<open>The fields of \<open>bmRequestType\<close>, selected with the masks of the header.\<close>

definition req_direction :: "usbd_ctlreq \<Rightarrow> int" where
  "req_direction req = uint (bmRequestType req) AND USB_REQ_DIRECTION"

definition req_type :: "usbd_ctlreq \<Rightarrow> int" where
  "req_type req = uint (bmRequestType req) AND USB_REQ_TYPE"

definition req_recipient :: "usbd_ctlreq \<Rightarrow> int" where
  "req_recipient req = uint (bmRequestType req) AND USB_REQ_RECIPIENT"

section \<open>The control transfer state machine\<close>

text \<open>
  Modelled from the spec: the request codes of the standard requests that the core
  answers by itself. The header names the requests in the comment of
  \<open>usbd_ctl_callback\<close>; their codes are those of the USB specification and are defined in
  a file that is not among the sources.
\<close>

definition USB_STD_GET_STATUS :: "8 word" where "USB_STD_GET_STATUS = 0x00"
definition USB_STD_CLEAR_FEATURE :: "8 word" where "USB_STD_CLEAR_FEATURE = 0x01"
definition USB_STD_SET_FEATURE :: "8 word" where "USB_STD_SET_FEATURE = 0x03"
definition USB_STD_SET_ADDRESS :: "8 word" where "USB_STD_SET_ADDRESS = 0x05"
definition USB_STD_GET_DESCRIPTOR :: "8 word" where "USB_STD_GET_DESCRIPTOR = 0x06"
definition USB_STD_GET_CONFIG :: "8 word" where "USB_STD_GET_CONFIG = 0x08"
definition USB_STD_SET_CONFIG :: "8 word" where "USB_STD_SET_CONFIG = 0x09"

text \<open>
  Modelled from the spec: the operations of the Hardware Driver Interface that the
  control state machine invokes on endpoint 0 and on the bus address, as the state
  machine's observable output. \<open>usbd_poll\<close> is declared in the header; its body, and with
  it the whole state machine, is not among the sources.
\<close>

datatype hw_op =
    Set_address "8 word"
  | Write_endpoint "8 word" "8 word list"
  | Read_endpoint "8 word"
  | Set_stall "8 word" bool

text \<open>
  Modelled from the spec: the events that the Event Dispatcher routes to the control
  state machine, \<open>epsetup\<close>, \<open>eprx\<close> and \<open>eptx\<close> on endpoint 0 (section 4.2). A SETUP
  event carries the request the driver reads out, a receive event the packet it reads
  out. Events of other endpoints and device events go to the application's callbacks
  and do not reach the state machine.
\<close>

datatype ep0_event =
    Epsetup usbd_ctlreq
  | Eprx "8 word list"
  | Eptx

text \<open>
  Modelled from the spec: the application's callbacks of section 6, as functions of the
  request. The control-request callback returns its verdict, the response data and
  whether it registers a transfer-complete callback; the descriptor callback returns its
  verdict and the descriptor; the configuration callback its verdict. An unset slot is
  \<open>None\<close>. A callback is given no access to the hardware operations here.
\<close>

record usbd_callbacks =
  control_cb :: "(usbd_ctlreq \<Rightarrow> usbd_respond \<times> 8 word list \<times> bool) option"
  config_cb :: "(8 word \<Rightarrow> usbd_respond) option"
  descriptor_cb :: "(usbd_ctlreq \<Rightarrow> usbd_respond \<times> 8 word list) option"

text \<open>
  Modelled from the spec: the Status record of section 3 (control sub-state, machine
  state, configuration number, control-endpoint packet size, buffer capacity, remaining
  count), the request of the active transfer with its response and received payload, the
  pending action of section 9 for SET\_ADDRESS, the transfer-complete registration, and
  the outputs: hardware operations invoked and transfer-complete callbacks fired, oldest
  first.
\<close>

record usbd_core =
  ctl_state :: usbd_ctl_state
  machine_state :: usbd_machine_state
  config_no :: "8 word"
  packet_size :: nat
  buffer_size :: nat
  remaining :: nat
  request :: usbd_ctlreq
  tx_data :: "8 word list"
  rx_data :: "8 word list"
  pending_address :: "8 word option"
  complete_armed :: bool
  hw_ops :: "hw_op list"
  completions :: "usbd_ctlreq list"

text \<open>
  Modelled from the spec: the state after initialisation, control sub-state \<open>idle\<close>
  (section 4.3, "Initial state: idle"), nothing pending.
\<close>

definition core_init :: "nat \<Rightarrow> nat \<Rightarrow> usbd_core" where
  "core_init ep0 cap =
     \<lparr>ctl_state = usbd_ctl_idle, machine_state = usbd_state_default, config_no = 0,
      packet_size = ep0, buffer_size = cap, remaining = 0,
      request = \<lparr>bmRequestType = 0, bRequest = 0, wValue = 0, wIndex = 0, wLength = 0,
                  data = []\<rparr>,
      tx_data = [], rx_data = [], pending_address = None, complete_armed = False,
      hw_ops = [], completions = []\<rparr>"

text \<open>
  Modelled from the spec: a failed transfer, "endpoint 0 is stalled and the state machine
  returns to idle" (section 4.3, items 2 and edge cases).
\<close>

definition stall_ep0 :: "usbd_core \<Rightarrow> usbd_core" where
  "stall_ep0 s = s\<lparr>ctl_state := usbd_ctl_idle, hw_ops := hw_ops s @ [Set_stall 0 True]\<rparr>"

text \<open>
  Modelled from the spec: the built-in handling of standard requests (section 4.3,
  item 2): GET\_CONFIGURATION, SET\_CONFIGURATION through the configuration callback,
  GET\_DESCRIPTOR through the descriptor callback, GET\_STATUS, SET\_FEATURE and
  CLEAR\_FEATURE for an endpoint recipient as stall and unstall, and SET\_ADDRESS, which
  "stores the pending address" and leaves the hardware alone. The result is the verdict,
  the response data and the new state. De-configuring the endpoints for configuration 0
  is the configuration callback's part, as the header's note on \<open>usbd_cfg_callback\<close>
  says, and a callback's own hardware calls are outside this model.
\<close>

definition std_request ::
  "usbd_callbacks \<Rightarrow> usbd_core \<Rightarrow> usbd_ctlreq \<Rightarrow> usbd_respond \<times> 8 word list \<times> usbd_core" where
  "std_request cbs s req =
     (if req_type req \<noteq> USB_REQ_STANDARD then (usbd_fail, [], s)
      else if bRequest req = USB_STD_GET_CONFIG then (usbd_ack, [config_no s], s)
      else if bRequest req = USB_STD_SET_CONFIG then
        (case config_cb cbs of
           None \<Rightarrow> (usbd_fail, [], s)
         | Some f \<Rightarrow>
             (case f (ucast (wValue req)) of
                usbd_ack \<Rightarrow>
                  (usbd_ack, [],
                   s\<lparr>config_no := ucast (wValue req),
                     machine_state := (if (ucast (wValue req) :: 8 word) = 0
                        then usbd_state_addressed else usbd_state_configured)\<rparr>)
              | r \<Rightarrow> (r, [], s)))
      else if bRequest req = USB_STD_GET_DESCRIPTOR then
        (case descriptor_cb cbs of
           None \<Rightarrow> (usbd_fail, [], s)
         | Some f \<Rightarrow> (case f req of (r, d) \<Rightarrow> (r, d, s)))
      else if bRequest req = USB_STD_GET_STATUS then (usbd_ack, [0, 0], s)
      else if bRequest req = USB_STD_SET_FEATURE \<and> req_recipient req = USB_REQ_ENDPOINT then
        (usbd_ack, [], s\<lparr>hw_ops := hw_ops s @ [Set_stall (ucast (wIndex req)) True]\<rparr>)
      else if bRequest req = USB_STD_CLEAR_FEATURE \<and> req_recipient req = USB_REQ_ENDPOINT then
        (usbd_ack, [], s\<lparr>hw_ops := hw_ops s @ [Set_stall (ucast (wIndex req)) False]\<rparr>)
      else if bRequest req = USB_STD_SET_ADDRESS then
        (usbd_ack, [], s\<lparr>pending_address := Some (ucast (wValue req))\<rparr>)
      else (usbd_fail, [], s))"

text \<open>
  Modelled from the spec: the control-callback chain (section 4.3, item 2), "try, in
  order, the user control-callback; if it returns not handled, attempt built-in
  standard-request handling". Not handled is the verdict \<open>usbd_fail\<close>, as the header's
  comment on \<open>usbd_ctl_callback\<close> has it.
\<close>

definition control_chain ::
  "usbd_callbacks \<Rightarrow> usbd_core \<Rightarrow> usbd_ctlreq \<Rightarrow> usbd_respond \<times> 8 word list \<times> usbd_core" where
  "control_chain cbs s req =
     (case control_cb cbs of
        None \<Rightarrow> std_request cbs s req
      | Some f \<Rightarrow>
          (case f req of
             (usbd_fail, d, c) \<Rightarrow> std_request cbs s req
           | (r, d, c) \<Rightarrow> (r, d, s\<lparr>complete_armed := c\<rparr>)))"

text \<open>
  Modelled from the spec: one step of the DATA-IN stage (section 4.3, item 4). It
  "writes the next packet of up to the control endpoint's max packet size from the
  response buffer". In \<open>tx_data\<close> the packet that empties the buffer is the last one; in
  \<open>tx_data_need_zlp\<close> one zero-length packet follows the data and is the last one. "After
  the last packet is queued to hardware" the state is \<open>tx_data_last\<close>.
\<close>

definition send_packet :: "usbd_core \<Rightarrow> usbd_core" where
  "send_packet s =
     (let n = min (length (tx_data s)) (packet_size s);
          s1 = s\<lparr>tx_data := drop n (tx_data s),
                 hw_ops := hw_ops s @ [Write_endpoint 0x80 (take n (tx_data s))]\<rparr>
      in if ctl_state s = usbd_ctl_ztxdata
         then (if tx_data s = [] then s1\<lparr>ctl_state := usbd_ctl_lastdata\<rparr> else s1)
         else (if tx_data s1 = [] then s1\<lparr>ctl_state := usbd_ctl_lastdata\<rparr> else s1))"

text \<open>
  Modelled from the spec: a request without DATA-IN stage is resolved "directly via the
  control-callback chain to status\_in or stall" (sections 4.3 and 8); \<open>status_in\<close> is
  entered "with a zero-length write already issued at entry". A \<open>nak\<close> verdict changes
  nothing, so that the request is presented again (spec, sections 4.3 and 7).
\<close>

definition resolve_request :: "usbd_callbacks \<Rightarrow> usbd_core \<Rightarrow> usbd_ctlreq \<Rightarrow> usbd_core" where
  "resolve_request cbs s req =
     (case control_chain cbs s req of
        (usbd_ack, d, s1) \<Rightarrow>
          s1\<lparr>ctl_state := usbd_ctl_statusin,
             hw_ops := hw_ops s1 @ [Write_endpoint 0x80 []]\<rparr>
      | (usbd_nak, d, s1) \<Rightarrow> s
      | (usbd_fail, d, s1) \<Rightarrow> stall_ep0 s1)"

text \<open>
  Modelled from the spec: the first effect of a SETUP packet (section 4.3, item 1): "any
  prior state is reset to idle first -- a new SETUP always pre-empts an in-flight
  transfer", and nothing of the prior transfer survives (section 8: "immediately
  discards the prior transfer").
\<close>

definition begin_transfer :: "usbd_core \<Rightarrow> usbd_ctlreq \<Rightarrow> usbd_core" where
  "begin_transfer s req =
     s\<lparr>ctl_state := usbd_ctl_idle, request := req, remaining := 0,
       tx_data := [], rx_data := [], pending_address := None, complete_armed := False\<rparr>"

text \<open>
  Modelled from the spec: when the DATA-IN stage needs a closing zero-length packet
  (section 4.3, item 4): "if total response length is an exact multiple of the max packet
  size and less than the originally requested wLength".
\<close>

definition needs_zlp :: "nat \<Rightarrow> nat \<Rightarrow> nat \<Rightarrow> bool" where
  "needs_zlp len ep0 wlen \<longleftrightarrow> len mod ep0 = 0 \<and> len < wlen"

text \<open>
  Modelled from the spec: SETUP received (section 4.3, item 1). With \<open>wLength = 0\<close>
  there is no data stage. A host-to-device request with data is stalled if \<open>wLength\<close>
  exceeds the capacity and otherwise enters \<open>rx_data\<close>. A device-to-host request
  obtains its response from the callback chain and enters \<open>tx_data_need_zlp\<close> if the
  response length is an exact multiple of the packet size and less than \<open>wLength\<close>,
  \<open>tx_data\<close> otherwise; the first packet is passed to the hardware at once.
\<close>

definition on_setup :: "usbd_callbacks \<Rightarrow> usbd_core \<Rightarrow> usbd_ctlreq \<Rightarrow> usbd_core" where
  "on_setup cbs s req =
     (let s0 = begin_transfer s req
      in if unat (wLength req) = 0 then resolve_request cbs s0 req
         else if req_direction req = USB_REQ_HOSTTODEV then
           (if buffer_size s0 < unat (wLength req) then stall_ep0 s0
            else s0\<lparr>ctl_state := usbd_ctl_rxdata,
                    remaining := min (unat (wLength req)) (buffer_size s0)\<rparr>)
         else
           (case control_chain cbs s0 req of
              (usbd_ack, d, s1) \<Rightarrow>
                send_packet
                  (s1\<lparr>tx_data := d,
                      ctl_state :=
                        (if needs_zlp (length d) (packet_size s1) (unat (wLength req))
                         then usbd_ctl_ztxdata else usbd_ctl_txdata)\<rparr>)
            | (usbd_nak, d, s1) \<Rightarrow> s0
            | (usbd_fail, d, s1) \<Rightarrow> stall_ep0 s1))"

text \<open>
  Modelled from the spec: completion of the STATUS stage (section 4.3, item 5):
  "transition to idle. If a transfer-complete callback was registered for this request,
  invoke it now exactly once, then clear the registration. If the completed request was
  SET\_ADDRESS, apply the deferred hardware set\_address here".
\<close>

definition status_done :: "usbd_core \<Rightarrow> usbd_core" where
  "status_done s =
     (let s1 = s\<lparr>ctl_state := usbd_ctl_idle\<rparr>;
          s2 = (if complete_armed s1
                then s1\<lparr>completions := completions s1 @ [request s1],
                        complete_armed := False\<rparr>
                else s1)
      in case pending_address s2 of
           None \<Rightarrow> s2
         | Some a \<Rightarrow> s2\<lparr>pending_address := None, hw_ops := hw_ops s2 @ [Set_address a]\<rparr>)"

text \<open>
  Modelled from the spec: a receive event on endpoint 0 (section 4.3, items 3 and 5). In
  \<open>rx_data\<close> it "reads one packet into the buffer cursor" and decrements the remaining
  count; when the full length has arrived the callback chain runs on the request with
  its data; a packet longer than what remains is a buffer overflow. In \<open>status_out\<close> a
  zero-length packet completes the STATUS stage. Anything else is an unexpected event:
  endpoint 0 is stalled and the state forced to \<open>idle\<close>.
\<close>

definition on_rx :: "usbd_callbacks \<Rightarrow> usbd_core \<Rightarrow> 8 word list \<Rightarrow> usbd_core" where
  "on_rx cbs s pkt =
     (if ctl_state s = usbd_ctl_rxdata then
        (let s1 = s\<lparr>hw_ops := hw_ops s @ [Read_endpoint 0x00]\<rparr>
         in if remaining s1 < length pkt then stall_ep0 s1
            else
              (let s2 = s1\<lparr>rx_data := rx_data s1 @ pkt,
                          remaining := remaining s1 - length pkt\<rparr>
               in if remaining s2 = 0
                  then resolve_request cbs s2 ((request s2)\<lparr>data := rx_data s2\<rparr>)
                  else s2))
      else if ctl_state s = usbd_ctl_statusout \<and> pkt = [] then
        status_done (s\<lparr>hw_ops := hw_ops s @ [Read_endpoint 0x00]\<rparr>)
      else stall_ep0 s)"

text \<open>
  Modelled from the spec: a transmit-complete event on endpoint 0 (section 4.3, items 4
  and 5): the next packet in the two transmitting states, \<open>tx_data_last\<close> to
  \<open>status_out\<close>, completion of the STATUS stage in \<open>status_in\<close>, and a stall for an
  unexpected event.
\<close>

definition on_tx :: "usbd_core \<Rightarrow> usbd_core" where
  "on_tx s =
     (if ctl_state s = usbd_ctl_txdata \<or> ctl_state s = usbd_ctl_ztxdata then send_packet s
      else if ctl_state s = usbd_ctl_lastdata then s\<lparr>ctl_state := usbd_ctl_statusout\<rparr>
      else if ctl_state s = usbd_ctl_statusin then status_done s
      else stall_ep0 s)"

text \<open>
  Modelled from the spec: what \<open>usbd_poll\<close> does with one endpoint-0 event, and with the
  events of a run in their order of arrival (section 4.2: "no reordering or batching").
\<close>

fun ep0_step :: "usbd_callbacks \<Rightarrow> usbd_core \<Rightarrow> ep0_event \<Rightarrow> usbd_core" where
  "ep0_step cbs s (Epsetup req) = on_setup cbs s req"
| "ep0_step cbs s (Eprx pkt) = on_rx cbs s pkt"
| "ep0_step cbs s Eptx = on_tx s"

fun ep0_run :: "usbd_callbacks \<Rightarrow> usbd_core \<Rightarrow> ep0_event list \<Rightarrow> usbd_core" where
  "ep0_run cbs s [] = s"
| "ep0_run cbs s (e # es) = ep0_run cbs (ep0_step cbs s e) es"

text \<open>The request of the most recent SETUP event of a run, if there was one.\<close>

fun last_setup :: "ep0_event list \<Rightarrow> usbd_ctlreq option" where
  "last_setup [] = None"
| "last_setup (Epsetup req # es) = (case last_setup es of None \<Rightarrow> Some req | Some r \<Rightarrow> Some r)"
| "last_setup (e # es) = last_setup es"

text \<open>The hardware operations that one event adds to those invoked before it.\<close>

definition ops_of_step :: "usbd_callbacks \<Rightarrow> usbd_core \<Rightarrow> ep0_event \<Rightarrow> hw_op list" where
  "ops_of_step cbs s e = drop (length (hw_ops s)) (hw_ops (ep0_step cbs s e))"

text \<open>The hardware operations that a run of events adds.\<close>

definition ops_of_run :: "usbd_callbacks \<Rightarrow> usbd_core \<Rightarrow> ep0_event list \<Rightarrow> hw_op list" where
  "ops_of_run cbs s es = drop (length (hw_ops s)) (hw_ops (ep0_run cbs s es))"

text \<open>The zero-length packets among the writes to the control IN endpoint.\<close>

definition zero_length_packets :: "hw_op list \<Rightarrow> nat" where
  "zero_length_packets ops = length (filter (\<lambda>op. op = Write_endpoint 0x80 []) ops)"

text \<open>The bytes written to the control IN endpoint, in order.\<close>

fun written :: "hw_op list \<Rightarrow> 8 word list" where
  "written [] = []"
| "written (Write_endpoint ep bs # ops) = bs @ written ops"
| "written (op # ops) = written ops"

text \<open>A list of hardware operations that holds nothing but stall and unstall.\<close>

definition stall_only :: "hw_op list \<Rightarrow> bool" where
  "stall_only ops \<longleftrightarrow> (\<forall>op \<in> set ops. \<exists>ep b. op = Set_stall ep b)"

text \<open>
  A pending address always stems from the request on record: that request is a standard
  SET\_ADDRESS request and the pending address is the low byte of its \<open>wValue\<close>.
\<close>

definition pending_ok :: "usbd_core \<Rightarrow> bool" where
  "pending_ok s \<longleftrightarrow>
     (\<forall>a. pending_address s = Some a \<longrightarrow>
        req_type (request s) = USB_REQ_STANDARD \<and>
        bRequest (request s) = USB_STD_SET_ADDRESS \<and>
        a = ucast (wValue (request s)))"

text \<open>Callbacks and requests used to run the state machine on concrete inputs.\<close>

definition no_callbacks :: usbd_callbacks where
  "no_callbacks = \<lparr>control_cb = None, config_cb = None, descriptor_cb = None\<rparr>"

definition descriptor_callbacks :: "8 word list \<Rightarrow> usbd_callbacks" where
  "descriptor_callbacks d =
     \<lparr>control_cb = None, config_cb = None, descriptor_cb = Some (\<lambda>req. (usbd_ack, d))\<rparr>"

definition set_address_request :: "8 word \<Rightarrow> usbd_ctlreq" where
  "set_address_request a =
     \<lparr>bmRequestType = 0x00, bRequest = USB_STD_SET_ADDRESS, wValue = ucast a, wIndex = 0,
      wLength = 0, data = []\<rparr>"

definition get_descriptor_request :: "16 word \<Rightarrow> usbd_ctlreq" where
  "get_descriptor_request len =
     \<lparr>bmRequestType = 0x80, bRequest = USB_STD_GET_DESCRIPTOR, wValue = 0x0100, wIndex = 0,
      wLength = len, data = []\<rparr>"

section \<open>Layout facts\<close>

lemma member_offsets_usbd_ctlreq:
  "member_offsets 0 usbd_ctlreq_members =
     [(''bmRequestType'', 0), (''bRequest'', 1), (''wValue'', 2),
      (''wIndex'', 4), (''wLength'', 6), (''data'', 8)]"
  by (simp add: usbd_ctlreq_members_def align_up_def)

lemma offsetof_data: "offsetof usbd_ctlreq_members ''data'' = Some 8"
  by (simp add: offsetof_def member_offsets_usbd_ctlreq)

lemma offsetof_usbd_ctlreq_data_eq: "offsetof_usbd_ctlreq_data = 8"
  by (simp add: offsetof_usbd_ctlreq_data_def offsetof_data)

lemma size_t_difference_low_half:
  "(ucast ((ucast (bsize :: 16 word) :: 32 word) - 8) :: 16 word) = bsize - 8"
proof -
  have d: "(65536::int) dvd 4294967296" by simp
  show ?thesis
    apply transfer
    apply (simp only: take_bit_eq_mod)
    apply (simp add: mod_mod_cancel [OF d] mod_diff_left_eq)
    done
qed

section \<open>Initialisation\<close>

lemma usbd_init_status:
  "status (usbd_init dev drv ep0sz buffer bsize) =
     (status dev)\<lparr>ep0size := ep0sz, data_ptr := buffer, data_buf := buffer,
                  data_maxsize := bsize - 8\<rparr>"
  by (simp add: usbd_init_def Let_def offsetof_usbd_ctlreq_data_eq size_t_difference_low_half)

lemma usbd_init_outer:
  "usbd_init dev drv ep0sz buffer bsize =
     dev\<lparr>driver := drv, status := status (usbd_init dev drv ep0sz buffer bsize)\<rparr>"
  by (simp add: usbd_init_def Let_def)

text \<open>
  C1, as amended. \<open>usbd_init\<close> stores in \<open>data_maxsize\<close> the buffer size minus the offset
  of \<open>data\<close> in \<open>usbd_ctlreq\<close>, which is 8, computed in unsigned 16-bit arithmetic: the
  stored value is \<open>bsize - 8\<close> whenever \<open>bsize\<close> is at least 8 and \<open>bsize - 8\<close> modulo
  65536 in general. \<open>data_buf\<close> and \<open>data_ptr\<close> are both set to the buffer supplied.
\<close>

theorem usbd_init_capacity:
  "offsetof usbd_ctlreq_members ''data'' = Some 8 \<and>
   uint (data_maxsize (status (usbd_init dev drv ep0sz buffer bsize))) =
     (uint bsize - 8) mod 65536 \<and>
   (8 \<le> unat bsize \<longrightarrow>
      unat (data_maxsize (status (usbd_init dev drv ep0sz buffer bsize))) = unat bsize - 8) \<and>
   data_buf (status (usbd_init dev drv ep0sz buffer bsize)) = buffer \<and>
   data_ptr (status (usbd_init dev drv ep0sz buffer bsize)) = buffer"
  by (simp add: usbd_init_status offsetof_data uint_word_ariths unat_sub word_le_nat_alt)

theorem usbd_init_capacity_witness:
  "8 \<le> unat (64 :: 16 word) \<and>
   unat (data_maxsize (status
     (usbd_init (zero_device idle_driver) idle_driver 8 0x20000000 64))) = 56"
  using usbd_init_capacity [of "zero_device idle_driver" idle_driver 8 "0x20000000" 64]
  by simp

text \<open>
  C1 as stated fails for a buffer shorter than the header: with \<open>bsize = 4\<close> the stored
  capacity is 65532, not \<open>4 - 8\<close>.
\<close>

theorem usbd_init_capacity_counterexample:
  "uint (data_maxsize (status
     (usbd_init (zero_device idle_driver) idle_driver 8 0x20000000 4))) = 65532 \<and>
   uint (data_maxsize (status
     (usbd_init (zero_device idle_driver) idle_driver 8 0x20000000 4))) \<noteq>
     uint (4 :: 16 word) - 8"
  by (simp add: usbd_init_status)

text \<open>
  C4. The bmRequestType masks are \<open>USB_REQ_DIRECTION = 0x80\<close> (bit 7),
  \<open>USB_REQ_TYPE = 0x60\<close> (bits 6 and 5) and \<open>USB_REQ_RECIPIENT = 0x03\<close> (bits 1 and 0);
  \<open>usbd_ctlreq\<close> has the one-byte \<open>bmRequestType\<close> at offset 0, the one-byte \<open>bRequest\<close>
  at offset 1, the two-byte \<open>wValue\<close>, \<open>wIndex\<close> and \<open>wLength\<close> at offsets 2, 4 and 6,
  and the payload \<open>data\<close> at offset 8.
\<close>

theorem usbd_ctlreq_wire_layout:
  "USB_REQ_DIRECTION = 0x80 \<and> USB_REQ_DIRECTION = 2 ^ 7 \<and>
   USB_REQ_TYPE = 0x60 \<and> USB_REQ_TYPE = 2 ^ 6 + 2 ^ 5 \<and>
   USB_REQ_RECIPIENT = 0x03 \<and> USB_REQ_RECIPIENT = 2 ^ 1 + 2 ^ 0 \<and>
   member_offsets 0 usbd_ctlreq_members =
     [(''bmRequestType'', 0), (''bRequest'', 1), (''wValue'', 2),
      (''wIndex'', 4), (''wLength'', 6), (''data'', 8)] \<and>
   map (sizeof \<circ> snd) usbd_ctlreq_members = [1, 1, 2, 2, 2, 0]"
  by (simp add: USB_REQ_DIRECTION_def USB_REQ_TYPE_def USB_REQ_RECIPIENT_def
      member_offsets_usbd_ctlreq)
    (simp add: usbd_ctlreq_members_def)

text \<open>
  C8. \<open>usbd_init\<close> assigns \<open>driver\<close> and the status members \<open>ep0size\<close>, \<open>data_ptr\<close>,
  \<open>data_buf\<close> and \<open>data_maxsize\<close>, and nothing else: the four callback slots, the event
  and endpoint tables and the status members \<open>data_count\<close>, \<open>device_cfg\<close>,
  \<open>device_state\<close> and \<open>control_state\<close> keep the values they had.
\<close>

theorem usbd_init_frame:
  "control_callback (usbd_init dev drv ep0sz buffer bsize) = control_callback dev \<and>
   complete_callback (usbd_init dev drv ep0sz buffer bsize) = complete_callback dev \<and>
   config_callback (usbd_init dev drv ep0sz buffer bsize) = config_callback dev \<and>
   descriptor_callback (usbd_init dev drv ep0sz buffer bsize) = descriptor_callback dev \<and>
   events (usbd_init dev drv ep0sz buffer bsize) = events dev \<and>
   endpoint (usbd_init dev drv ep0sz buffer bsize) = endpoint dev \<and>
   data_count (status (usbd_init dev drv ep0sz buffer bsize)) = data_count (status dev) \<and>
   device_cfg (status (usbd_init dev drv ep0sz buffer bsize)) = device_cfg (status dev) \<and>
   device_state (status (usbd_init dev drv ep0sz buffer bsize)) = device_state (status dev) \<and>
   control_state (status (usbd_init dev drv ep0sz buffer bsize)) =
     control_state (status dev) \<and>
   driver (usbd_init dev drv ep0sz buffer bsize) = drv \<and>
   ep0size (status (usbd_init dev drv ep0sz buffer bsize)) = ep0sz \<and>
   usbd_init dev drv ep0sz buffer bsize =
     dev\<lparr>driver := drv,
         status := (status dev)\<lparr>ep0size := ep0sz, data_ptr := buffer, data_buf := buffer,
           data_maxsize := data_maxsize (status (usbd_init dev drv ep0sz buffer bsize))\<rparr>\<rparr>"
  by (simp add: usbd_init_def Let_def)

section \<open>Callback registration\<close>

lemma and_7_mod_8: "unat ((ep :: 8 word) AND 0x07) = unat ep mod 8"
proof -
  have "ep AND 0x07 = take_bit 3 ep"
    by (simp add: take_bit_eq_mask mask_eq_exp_minus_1)
  then show ?thesis
    by (simp add: take_bit_eq_mod unat_mod)
qed

lemma direction_bit_folded: "((ep :: 8 word) XOR 0x80) AND 0x07 = ep AND 0x07"
proof -
  have "\<And>x :: 8 word. x AND 0x07 = take_bit 3 x"
    by (simp add: take_bit_eq_mask mask_eq_exp_minus_1)
  then show ?thesis
    by (simp add: take_bit_xor)
qed

lemma usbd_reg_endpoint_sized:
  assumes "length (endpoint dev) = 8"
  shows "usbd_reg_endpoint dev ep cb =
           Inr (dev\<lparr>endpoint := (endpoint dev)[unat ep mod 8 := cb]\<rparr>)"
  using assms by (simp add: usbd_reg_endpoint_def array_store_def and_7_mod_8)

lemma usbd_reg_event_cases:
  "usbd_reg_event dev evt cb =
     (if unat evt < length (events dev)
      then Inr (dev\<lparr>events := (events dev)[unat evt := cb]\<rparr>) else Inl OutOfBounds)"
  by (simp add: usbd_reg_event_def array_store_def)

text \<open>
  C3. \<open>usbd_reg_endpoint dev ep cb\<close> stores \<open>cb\<close> in the endpoint table at index
  \<open>ep mod 8\<close>, for every 8-bit \<open>ep\<close>; the address with the direction bit flipped,
  \<open>ep XOR 0x80\<close>, selects the same slot, and the index is inside the 8-entry table.
\<close>

theorem usbd_reg_endpoint_slot:
  assumes "usbd_device_sized dev"
  shows "usbd_reg_endpoint dev ep cb =
           Inr (dev\<lparr>endpoint := (endpoint dev)[unat ep mod 8 := cb]\<rparr>) \<and>
         usbd_reg_endpoint dev (ep XOR 0x80) cb = usbd_reg_endpoint dev ep cb \<and>
         unat (ep XOR 0x80) mod 8 = unat ep mod 8 \<and>
         unat ep mod 8 < length (endpoint dev)"
proof -
  from assms have len: "length (endpoint dev) = 8"
    by (simp add: usbd_device_sized_def)
  have same: "unat (ep XOR 0x80) mod 8 = unat ep mod 8"
    using direction_bit_folded [of ep] by (simp add: and_7_mod_8 [symmetric])
  show ?thesis
    by (simp add: usbd_reg_endpoint_sized [OF len] same len)
qed

theorem usbd_reg_endpoint_slot_witness:
  "usbd_device_sized (zero_device idle_driver) \<and>
   usbd_reg_endpoint (zero_device idle_driver) 0x81 5 =
     Inr ((zero_device idle_driver)\<lparr>endpoint := [0, 5, 0, 0, 0, 0, 0, 0]\<rparr>) \<and>
   usbd_reg_endpoint (zero_device idle_driver) 0x01 5 =
     usbd_reg_endpoint (zero_device idle_driver) 0x81 5"
proof -
  have sized: "usbd_device_sized (zero_device idle_driver)"
    by (simp add: usbd_device_sized_def zero_device_def usbd_evt_count_def)
  have rep: "replicate 8 (0 :: addr) = [0, 0, 0, 0, 0, 0, 0, 0]"
    by (simp add: numeral_eq_Suc)
  have tab: "(endpoint (zero_device idle_driver))[unat (0x81 :: 8 word) mod 8 := 5] =
      [0, 5, 0, 0, 0, 0, 0, 0]"
    by (simp add: zero_device_def rep)
  show ?thesis
    using sized usbd_reg_endpoint_slot [OF sized, of "0x81" 5] tab by simp
qed

text \<open>
  C10. With the tables of the declared sizes, \<open>usbd_reg_endpoint\<close> never stores outside
  the endpoint table, whatever the 8-bit endpoint argument, because the index is masked
  with \<open>0x07\<close>. \<open>usbd_reg_event\<close> uses \<open>evt\<close> as it comes: its store is inside the event
  table exactly when \<open>evt < usbd_evt_count\<close>, and under that precondition it is the plain
  update of \<open>events[evt]\<close>.
\<close>

theorem usbd_reg_bounds:
  assumes "usbd_device_sized dev"
  shows "(\<forall>ep cb. usbd_reg_endpoint dev ep cb \<noteq> Inl OutOfBounds) \<and>
         (\<forall>evt cb. (usbd_reg_event dev evt cb = Inl OutOfBounds)
                     = (usbd_evt_count \<le> unat evt)) \<and>
         (\<forall>evt cb. unat evt < usbd_evt_count \<longrightarrow>
            usbd_reg_event dev evt cb = Inr (dev\<lparr>events := (events dev)[unat evt := cb]\<rparr>)) \<and>
         usbd_evt_count = 9"
proof -
  from assms have len: "length (endpoint dev) = 8" "length (events dev) = usbd_evt_count"
    by (simp_all add: usbd_device_sized_def)
  show ?thesis
    by (simp add: usbd_reg_endpoint_sized [OF len(1)] usbd_reg_event_cases len(2)
        usbd_evt_count_def not_less)
qed

theorem usbd_reg_bounds_witness:
  "usbd_device_sized (zero_device idle_driver) \<and>
   unat (8 :: 8 word) < usbd_evt_count \<and>
   usbd_reg_event (zero_device idle_driver) 8 5 =
     Inr ((zero_device idle_driver)\<lparr>events := [0, 0, 0, 0, 0, 0, 0, 0, 5]\<rparr>) \<and>
   usbd_reg_event (zero_device idle_driver) 9 5 = Inl OutOfBounds \<and>
   usbd_reg_endpoint (zero_device idle_driver) 0xFF 5 \<noteq> Inl OutOfBounds"
proof -
  have sized: "usbd_device_sized (zero_device idle_driver)"
    by (simp add: usbd_device_sized_def zero_device_def usbd_evt_count_def)
  have rep: "replicate 9 (0 :: addr) = [0, 0, 0, 0, 0, 0, 0, 0, 0]"
    by (simp add: numeral_eq_Suc)
  have upd: "[0, 0, 0, 0, 0, 0, 0, 0, 0 :: addr][8 := 5] = [0, 0, 0, 0, 0, 0, 0, 0, 5]"
    by (simp add: numeral_eq_Suc)
  have tab: "(events (zero_device idle_driver))[unat (8 :: 8 word) := 5] =
      [0, 0, 0, 0, 0, 0, 0, 0, 5]"
    by (simp add: zero_device_def rep upd)
  have small: "unat (8 :: 8 word) < usbd_evt_count"
    by (simp add: usbd_evt_count_def)
  from usbd_reg_bounds [OF sized]
  have a: "usbd_reg_endpoint (zero_device idle_driver) 0xFF 5 \<noteq> Inl OutOfBounds"
    and b: "(usbd_reg_event (zero_device idle_driver) 9 5 = Inl OutOfBounds)
              = (usbd_evt_count \<le> unat (9 :: 8 word))"
    and c: "unat (8 :: 8 word) < usbd_evt_count \<longrightarrow>
              usbd_reg_event (zero_device idle_driver) 8 5 =
                Inr ((zero_device idle_driver)
                  \<lparr>events := (events (zero_device idle_driver))[unat (8 :: 8 word) := 5]\<rparr>)"
    by blast+
  from b have b': "usbd_reg_event (zero_device idle_driver) 9 5 = Inl OutOfBounds"
    by (simp add: usbd_evt_count_def)
  from c small tab show ?thesis
    using sized a b' by simp
qed

section \<open>Endpoint wrappers\<close>

lemma usbd_ep_config_recorded:
  assumes "driver (device s) = recording d" and "hardware s = (h, l)"
  shows "usbd_ep_config ep eptype epsize s =
           (fst (ep_config d ep eptype epsize h),
            s\<lparr>hardware := (snd (ep_config d ep eptype epsize h),
                           l @ [Call_ep_config ep eptype epsize])\<rparr>)"
  using assms by (simp add: usbd_ep_config_def recording_def split: prod.splits)

lemma usbd_ep_deconfig_recorded:
  assumes "driver (device s) = recording d" and "hardware s = (h, l)"
  shows "usbd_ep_deconfig ep s =
           s\<lparr>hardware := (ep_deconfig d ep h, l @ [Call_ep_deconfig ep])\<rparr>"
  using assms by (simp add: usbd_ep_deconfig_def recording_def)

lemma usbd_ep_write_recorded:
  assumes "driver (device s) = recording d" and "hardware s = (h, l)"
  shows "usbd_ep_write ep buf blen s =
           (ucast (fst (ep_write d ep buf blen h)),
            s\<lparr>hardware := (snd (ep_write d ep buf blen h),
                           l @ [Call_ep_write ep buf blen])\<rparr>)"
  using assms by (simp add: usbd_ep_write_def recording_def split: prod.splits)

lemma usbd_ep_read_recorded:
  assumes "driver (device s) = recording d" and "hardware s = (h, l)"
  shows "usbd_ep_read ep buf blen s =
           (ucast (fst (ep_read d ep buf blen h)),
            s\<lparr>hardware := (snd (ep_read d ep buf blen h),
                           l @ [Call_ep_read ep buf blen])\<rparr>)"
  using assms by (simp add: usbd_ep_read_def recording_def split: prod.splits)

lemma usbd_ep_stall_recorded:
  assumes "driver (device s) = recording d" and "hardware s = (h, l)"
  shows "usbd_ep_stall ep s =
           s\<lparr>hardware := (ep_setstall d ep True h, l @ [Call_ep_setstall ep True])\<rparr>"
  using assms by (simp add: usbd_ep_stall_def recording_def)

lemma usbd_ep_unstall_recorded:
  assumes "driver (device s) = recording d" and "hardware s = (h, l)"
  shows "usbd_ep_unstall ep s =
           s\<lparr>hardware := (ep_setstall d ep False h, l @ [Call_ep_setstall ep False])\<rparr>"
  using assms by (simp add: usbd_ep_unstall_def recording_def)

text \<open>
  C5. Run on any driver under the recorder, \<open>usbd_ep_config ep eptype epsize\<close> returns
  the outcome of the driver's \<open>ep_config\<close> as it is, success or failure, leaves the
  peripheral as one invocation of \<open>ep_config\<close> leaves it, and adds to the record exactly
  one call, \<open>ep_config\<close> with the same \<open>ep\<close>, \<open>eptype\<close> and \<open>epsize\<close>: there is no second
  attempt after a failure.
\<close>

theorem usbd_ep_config_forwards:
  assumes "driver (device s) = recording d" and "hardware s = (h, l)"
    and "ep_config d ep eptype epsize h = (b, h')"
  shows "fst (usbd_ep_config ep eptype epsize s) = b \<and>
         hardware (snd (usbd_ep_config ep eptype epsize s)) =
           (h', l @ [Call_ep_config ep eptype epsize]) \<and>
         device (snd (usbd_ep_config ep eptype epsize s)) = device s"
  using assms by (simp add: usbd_ep_config_recorded [OF assms(1,2)])

theorem usbd_ep_config_forwards_witness:
  "fst (usbd_ep_config 0x81 2 64
      \<lparr>device = zero_device (recording failing_driver), hardware = ((), [])\<rparr>) = False \<and>
   hardware (snd (usbd_ep_config 0x81 2 64
      \<lparr>device = zero_device (recording failing_driver), hardware = ((), [])\<rparr>)) =
     ((), [Call_ep_config 0x81 2 64])"
proof -
  have a: "driver (device \<lparr>device = zero_device (recording failing_driver),
      hardware = ((), [])\<rparr>) = recording failing_driver"
    by (simp add: zero_device_def)
  have b: "hardware \<lparr>device = zero_device (recording failing_driver),
      hardware = ((), [])\<rparr> = ((), [])"
    by simp
  have c: "ep_config failing_driver 0x81 2 64 () = (False, ())"
    by (simp add: failing_driver_def)
  show ?thesis
    using usbd_ep_config_forwards [OF a b c] by simp
qed

text \<open>
  C9. None of \<open>usbd_ep_config\<close>, \<open>usbd_ep_deconfig\<close>, \<open>usbd_ep_read\<close>, \<open>usbd_ep_write\<close>,
  \<open>usbd_ep_stall\<close> and \<open>usbd_ep_unstall\<close> changes the device structure, and each makes
  exactly one call through the driver table: \<open>ep_config\<close>, \<open>ep_deconfig\<close>, \<open>ep_read\<close>,
  \<open>ep_write\<close>, and \<open>ep_setstall\<close> with the stall flag set for \<open>usbd_ep_stall\<close> and clear
  for \<open>usbd_ep_unstall\<close>.
\<close>

theorem usbd_ep_wrappers_frame:
  assumes "driver (device s) = recording d" and "hardware s = (h, l)"
  shows "device (snd (usbd_ep_config ep eptype epsize s)) = device s \<and>
         snd (hardware (snd (usbd_ep_config ep eptype epsize s))) =
           l @ [Call_ep_config ep eptype epsize] \<and>
         device (usbd_ep_deconfig ep s) = device s \<and>
         snd (hardware (usbd_ep_deconfig ep s)) = l @ [Call_ep_deconfig ep] \<and>
         device (snd (usbd_ep_read ep buf blen s)) = device s \<and>
         snd (hardware (snd (usbd_ep_read ep buf blen s))) = l @ [Call_ep_read ep buf blen] \<and>
         device (snd (usbd_ep_write ep buf blen s)) = device s \<and>
         snd (hardware (snd (usbd_ep_write ep buf blen s))) = l @ [Call_ep_write ep buf blen] \<and>
         device (usbd_ep_stall ep s) = device s \<and>
         snd (hardware (usbd_ep_stall ep s)) = l @ [Call_ep_setstall ep True] \<and>
         device (usbd_ep_unstall ep s) = device s \<and>
         snd (hardware (usbd_ep_unstall ep s)) = l @ [Call_ep_setstall ep False]"
  by (simp add: usbd_ep_config_recorded [OF assms] usbd_ep_deconfig_recorded [OF assms]
      usbd_ep_read_recorded [OF assms] usbd_ep_write_recorded [OF assms]
      usbd_ep_stall_recorded [OF assms] usbd_ep_unstall_recorded [OF assms])

theorem usbd_ep_wrappers_frame_witness:
  "device (usbd_ep_stall 0x81
      \<lparr>device = zero_device (recording idle_driver), hardware = ((), [])\<rparr>) =
     zero_device (recording idle_driver) \<and>
   snd (hardware (usbd_ep_stall 0x81
      \<lparr>device = zero_device (recording idle_driver), hardware = ((), [])\<rparr>)) =
     [Call_ep_setstall 0x81 True] \<and>
   snd (hardware (usbd_ep_unstall 0x81
      \<lparr>device = zero_device (recording idle_driver), hardware = ((), [])\<rparr>)) =
     [Call_ep_setstall 0x81 False]"
proof -
  have a: "driver (device \<lparr>device = zero_device (recording idle_driver),
      hardware = ((), [])\<rparr>) = recording idle_driver"
    by (simp add: zero_device_def)
  have b: "hardware \<lparr>device = zero_device (recording idle_driver),
      hardware = ((), [])\<rparr> = ((), [])"
    by simp
  show ?thesis
    using usbd_ep_wrappers_frame [OF a b, of "0x81"] by simp
qed

lemma minus_one_low_half: "(ucast (- 1 :: 32 word) :: 16 word) = 0xFFFF"
  by (simp add: unsigned_minus_1_eq_mask mask_eq_exp_minus_1)

text \<open>
  C2 does not hold of the code. \<open>usbd_ep_read\<close> is declared to return \<open>uint16_t\<close>, so the
  driver's 32-bit result is cut to its low 16 bits on return: when the driver's \<open>ep_read\<close>
  reports the error \<open>-1\<close>, the caller of \<open>usbd_ep_read\<close> receives 65535.
\<close>

theorem usbd_ep_read_error_lost:
  "sint (fst (ep_read failing_driver 0x01 0x20000100 64 ())) = - 1 \<and>
   uint (fst (usbd_ep_read 0x01 0x20000100 64
      \<lparr>device = zero_device failing_driver, hardware = ()\<rparr>)) = 65535"
  by (simp add: usbd_ep_read_def zero_device_def failing_driver_def minus_one_low_half)

section \<open>The control transfer state machine\<close>

subsection \<open>What the callback chain can change\<close>

lemma stall_only_simps [simp]:
  "stall_only []" "stall_only [Set_stall ep b]"
  by (simp_all add: stall_only_def)

lemma std_request_shape:
  assumes "std_request cbs s req = (r, d, s')"
  shows "s' = s \<or>
         (\<exists>c m. s' = s\<lparr>config_no := c, machine_state := m\<rparr>) \<or>
         (\<exists>ep b. s' = s\<lparr>hw_ops := hw_ops s @ [Set_stall ep b]\<rparr>) \<or>
         (r = usbd_ack \<and> req_type req = USB_REQ_STANDARD \<and>
          bRequest req = USB_STD_SET_ADDRESS \<and>
          s' = s\<lparr>pending_address := Some (ucast (wValue req))\<rparr>)"
  using assms
  by (auto simp: std_request_def
      split: if_splits option.splits usbd_respond.splits prod.splits)

lemma control_chain_shape:
  assumes "control_chain cbs s req = (r, d, s')"
  shows "(\<exists>c. s' = s\<lparr>complete_armed := c\<rparr>) \<or>
         (\<exists>c m. s' = s\<lparr>config_no := c, machine_state := m\<rparr>) \<or>
         (\<exists>ep b. s' = s\<lparr>hw_ops := hw_ops s @ [Set_stall ep b]\<rparr>) \<or>
         (r = usbd_ack \<and> req_type req = USB_REQ_STANDARD \<and>
          bRequest req = USB_STD_SET_ADDRESS \<and>
          s' = s\<lparr>pending_address := Some (ucast (wValue req))\<rparr>)"
proof (cases "control_cb cbs")
  case None
  with assms have "std_request cbs s req = (r, d, s')"
    by (simp add: control_chain_def)
  from std_request_shape [OF this] show ?thesis
    by (metis usbd_core.update_convs(11) usbd_core.surjective usbd_core.select_convs(11))
next
  case (Some f)
  show ?thesis
  proof (cases "fst (f req) = usbd_fail")
    case True
    with Some assms have "std_request cbs s req = (r, d, s')"
      by (auto simp: control_chain_def split: prod.splits usbd_respond.splits)
    from std_request_shape [OF this] show ?thesis
      by (metis usbd_core.update_convs(11) usbd_core.surjective usbd_core.select_convs(11))
  next
    case False
    with Some assms have "\<exists>c. s' = s\<lparr>complete_armed := c\<rparr>"
      by (auto simp: control_chain_def split: prod.splits usbd_respond.splits)
    then show ?thesis by blast
  qed
qed

lemma control_chain_keeps:
  assumes "control_chain cbs s req = (r, d, s')"
  shows "request s' = request s" and "ctl_state s' = ctl_state s"
    and "packet_size s' = packet_size s" and "tx_data s' = tx_data s"
    and "\<exists>xs. hw_ops s' = hw_ops s @ xs \<and> stall_only xs"
  using control_chain_shape [OF assms] by auto

lemma control_chain_pending:
  assumes "control_chain cbs s req = (r, d, s')"
  shows "pending_address s' = pending_address s \<or>
         (r = usbd_ack \<and> req_type req = USB_REQ_STANDARD \<and>
          bRequest req = USB_STD_SET_ADDRESS \<and>
          pending_address s' = Some (ucast (wValue req)))"
  using control_chain_shape [OF assms] by auto

lemma stall_only_no_address: "stall_only xs \<Longrightarrow> Set_address a \<notin> set xs"
  by (auto simp: stall_only_def)

lemma stall_only_no_write: "stall_only xs \<Longrightarrow> Write_endpoint ep bs \<notin> set xs"
  by (auto simp: stall_only_def)

subsection \<open>The steps of the state machine, one by one\<close>

lemma stall_ep0_sel [simp]:
  "hw_ops (stall_ep0 s) = hw_ops s @ [Set_stall 0 True]"
  "ctl_state (stall_ep0 s) = usbd_ctl_idle"
  "request (stall_ep0 s) = request s"
  "pending_address (stall_ep0 s) = pending_address s"
  by (simp_all add: stall_ep0_def)

lemma send_packet_sel [simp]:
  "hw_ops (send_packet s) =
     hw_ops s @ [Write_endpoint 0x80 (take (packet_size s) (tx_data s))]"
  "request (send_packet s) = request s"
  "pending_address (send_packet s) = pending_address s"
  "packet_size (send_packet s) = packet_size s"
  "tx_data (send_packet s) = drop (packet_size s) (tx_data s)"
  by (simp_all add: send_packet_def Let_def min_def)

lemma status_done_sel [simp]:
  "hw_ops (status_done s) =
     hw_ops s @ (case pending_address s of None \<Rightarrow> [] | Some a \<Rightarrow> [Set_address a])"
  "ctl_state (status_done s) = usbd_ctl_idle"
  "request (status_done s) = request s"
  "pending_address (status_done s) = None"
  by (simp_all add: status_done_def Let_def split: option.splits)

lemma begin_transfer_sel [simp]:
  "hw_ops (begin_transfer s req) = hw_ops s"
  "request (begin_transfer s req) = req"
  "pending_address (begin_transfer s req) = None"
  "packet_size (begin_transfer s req) = packet_size s"
  "ctl_state (begin_transfer s req) = usbd_ctl_idle"
  by (simp_all add: begin_transfer_def)

lemma resolve_request_cases:
  obtains (ack) d s1 where "control_chain cbs s req = (usbd_ack, d, s1)"
      "resolve_request cbs s req =
         s1\<lparr>ctl_state := usbd_ctl_statusin, hw_ops := hw_ops s1 @ [Write_endpoint 0x80 []]\<rparr>"
    | (nak) "resolve_request cbs s req = s"
    | (fail) d s1 where "control_chain cbs s req = (usbd_fail, d, s1)"
      "resolve_request cbs s req = stall_ep0 s1"
proof -
  obtain r d s1 where c: "control_chain cbs s req = (r, d, s1)"
    by (metis prod_cases3)
  then show ?thesis
    using ack nak fail by (cases r) (simp_all add: resolve_request_def)
qed

lemma resolve_request_request [simp]:
  "request (resolve_request cbs s req) = request s"
  by (rule resolve_request_cases [of cbs s req]) (simp_all add: control_chain_keeps)

lemma resolve_request_ops:
  "\<exists>xs. hw_ops (resolve_request cbs s req) = hw_ops s @ xs \<and> (\<forall>a. Set_address a \<notin> set xs)"
proof (rule resolve_request_cases [of cbs s req])
  fix d s1
  assume c: "control_chain cbs s req = (usbd_ack, d, s1)"
    and r: "resolve_request cbs s req =
      s1\<lparr>ctl_state := usbd_ctl_statusin, hw_ops := hw_ops s1 @ [Write_endpoint 0x80 []]\<rparr>"
  from control_chain_keeps(5) [OF c] obtain xs where
    "hw_ops s1 = hw_ops s @ xs" "stall_only xs" by blast
  then have "hw_ops (resolve_request cbs s req) = hw_ops s @ (xs @ [Write_endpoint 0x80 []])"
    "\<forall>a. Set_address a \<notin> set (xs @ [Write_endpoint 0x80 []])"
    using r by (simp_all add: stall_only_no_address)
  then show ?thesis by blast
next
  assume "resolve_request cbs s req = s"
  then show ?thesis by simp
next
  fix d s1
  assume c: "control_chain cbs s req = (usbd_fail, d, s1)"
    and r: "resolve_request cbs s req = stall_ep0 s1"
  from control_chain_keeps(5) [OF c] obtain xs where
    "hw_ops s1 = hw_ops s @ xs" "stall_only xs" by blast
  then have "hw_ops (resolve_request cbs s req) = hw_ops s @ (xs @ [Set_stall 0 True])"
    "\<forall>a. Set_address a \<notin> set (xs @ [Set_stall 0 True])"
    using r by (simp_all add: stall_only_no_address)
  then show ?thesis by blast
qed

lemma resolve_request_pending:
  "pending_address (resolve_request cbs s req) = pending_address s \<or>
   (req_type req = USB_REQ_STANDARD \<and> bRequest req = USB_STD_SET_ADDRESS \<and>
    pending_address (resolve_request cbs s req) = Some (ucast (wValue req)))"
proof (rule resolve_request_cases [of cbs s req])
  fix d s1
  assume c: "control_chain cbs s req = (usbd_ack, d, s1)"
    and r: "resolve_request cbs s req =
      s1\<lparr>ctl_state := usbd_ctl_statusin, hw_ops := hw_ops s1 @ [Write_endpoint 0x80 []]\<rparr>"
  from control_chain_pending [OF c] r show ?thesis by auto
next
  assume "resolve_request cbs s req = s"
  then show ?thesis by simp
next
  fix d s1
  assume c: "control_chain cbs s req = (usbd_fail, d, s1)"
    and r: "resolve_request cbs s req = stall_ep0 s1"
  from control_chain_pending [OF c] r show ?thesis by auto
qed

lemma on_setup_cases:
  obtains (nodata) "on_setup cbs s req = resolve_request cbs (begin_transfer s req) req"
    | (stall) "on_setup cbs s req = stall_ep0 (begin_transfer s req)"
    | (rx) n where "on_setup cbs s req =
        (begin_transfer s req)\<lparr>ctl_state := usbd_ctl_rxdata, remaining := n\<rparr>"
    | (tx) d s1 st where "control_chain cbs (begin_transfer s req) req = (usbd_ack, d, s1)"
        "on_setup cbs s req = send_packet (s1\<lparr>tx_data := d, ctl_state := st\<rparr>)"
    | (nak) "on_setup cbs s req = begin_transfer s req"
    | (fail) d s1 where "control_chain cbs (begin_transfer s req) req = (usbd_fail, d, s1)"
        "on_setup cbs s req = stall_ep0 s1"
proof -
  obtain r d s1 where c: "control_chain cbs (begin_transfer s req) req = (r, d, s1)"
    by (metis prod_cases3)
  show ?thesis
  proof (cases "unat (wLength req) = 0")
    case True
    then show ?thesis using nodata by (simp add: on_setup_def)
  next
    case len: False
    show ?thesis
    proof (cases "req_direction req = USB_REQ_HOSTTODEV")
      case True
      with len show ?thesis
        using stall rx
        by (cases "buffer_size (begin_transfer s req) < unat (wLength req)")
          (simp_all add: on_setup_def Let_def)
    next
      case False
      with len c show ?thesis
        using tx nak fail by (cases r) (simp_all add: on_setup_def Let_def)
    qed
  qed
qed

lemma on_setup_request [simp]: "request (on_setup cbs s req) = req"
  by (rule on_setup_cases [of cbs s req]) (simp_all add: control_chain_keeps)

lemma on_setup_ops:
  "\<exists>xs. hw_ops (on_setup cbs s req) = hw_ops s @ xs \<and> (\<forall>a. Set_address a \<notin> set xs)"
proof (rule on_setup_cases [of cbs s req])
  assume "on_setup cbs s req = resolve_request cbs (begin_transfer s req) req"
  then show ?thesis
    using resolve_request_ops [of cbs "begin_transfer s req" req] by simp
next
  assume "on_setup cbs s req = stall_ep0 (begin_transfer s req)"
  then show ?thesis by simp
next
  fix n
  assume "on_setup cbs s req =
    (begin_transfer s req)\<lparr>ctl_state := usbd_ctl_rxdata, remaining := n\<rparr>"
  then show ?thesis by simp
next
  fix d s1 st
  assume c: "control_chain cbs (begin_transfer s req) req = (usbd_ack, d, s1)"
    and r: "on_setup cbs s req = send_packet (s1\<lparr>tx_data := d, ctl_state := st\<rparr>)"
  from control_chain_keeps(5) [OF c] obtain xs where
    xs: "hw_ops s1 = hw_ops s @ xs" "stall_only xs" by auto
  have "hw_ops (on_setup cbs s req) =
      hw_ops s @ (xs @ [Write_endpoint 0x80 (take (packet_size s1) d)])"
    using r xs by simp
  moreover have "\<forall>a. Set_address a \<notin> set (xs @ [Write_endpoint 0x80 (take (packet_size s1) d)])"
    using xs by (simp add: stall_only_no_address)
  ultimately show ?thesis by blast
next
  assume "on_setup cbs s req = begin_transfer s req"
  then show ?thesis by simp
next
  fix d s1
  assume c: "control_chain cbs (begin_transfer s req) req = (usbd_fail, d, s1)"
    and r: "on_setup cbs s req = stall_ep0 s1"
  from control_chain_keeps(5) [OF c] obtain xs where
    xs: "hw_ops s1 = hw_ops s @ xs" "stall_only xs" by auto
  have "hw_ops (on_setup cbs s req) = hw_ops s @ (xs @ [Set_stall 0 True])"
    using r xs by simp
  moreover have "\<forall>a. Set_address a \<notin> set (xs @ [Set_stall 0 True])"
    using xs by (simp add: stall_only_no_address)
  ultimately show ?thesis by blast
qed

lemma on_setup_pending:
  "pending_address (on_setup cbs s req) = None \<or>
   (req_type req = USB_REQ_STANDARD \<and> bRequest req = USB_STD_SET_ADDRESS \<and>
    pending_address (on_setup cbs s req) = Some (ucast (wValue req)))"
proof (rule on_setup_cases [of cbs s req])
  assume "on_setup cbs s req = resolve_request cbs (begin_transfer s req) req"
  then show ?thesis
    using resolve_request_pending [of cbs "begin_transfer s req" req] by auto
next
  assume "on_setup cbs s req = stall_ep0 (begin_transfer s req)"
  then show ?thesis by simp
next
  fix n
  assume "on_setup cbs s req =
    (begin_transfer s req)\<lparr>ctl_state := usbd_ctl_rxdata, remaining := n\<rparr>"
  then show ?thesis by simp
next
  fix d s1 st
  assume c: "control_chain cbs (begin_transfer s req) req = (usbd_ack, d, s1)"
    and r: "on_setup cbs s req = send_packet (s1\<lparr>tx_data := d, ctl_state := st\<rparr>)"
  from control_chain_pending [OF c] r show ?thesis by auto
next
  assume "on_setup cbs s req = begin_transfer s req"
  then show ?thesis by simp
next
  fix d s1
  assume c: "control_chain cbs (begin_transfer s req) req = (usbd_fail, d, s1)"
    and r: "on_setup cbs s req = stall_ep0 s1"
  from control_chain_pending [OF c] r show ?thesis by auto
qed

lemma on_rx_cases:
  obtains (overflow) "ctl_state s = usbd_ctl_rxdata"
      "on_rx cbs s pkt = stall_ep0 (s\<lparr>hw_ops := hw_ops s @ [Read_endpoint 0x00]\<rparr>)"
    | (complete) s2 where "ctl_state s = usbd_ctl_rxdata"
      "s2 = s\<lparr>hw_ops := hw_ops s @ [Read_endpoint 0x00], rx_data := rx_data s @ pkt,
              remaining := remaining s - length pkt\<rparr>"
      "on_rx cbs s pkt = resolve_request cbs s2 ((request s2)\<lparr>data := rx_data s2\<rparr>)"
    | (more) "ctl_state s = usbd_ctl_rxdata"
      "on_rx cbs s pkt = s\<lparr>hw_ops := hw_ops s @ [Read_endpoint 0x00],
          rx_data := rx_data s @ pkt, remaining := remaining s - length pkt\<rparr>"
    | (status) "ctl_state s = usbd_ctl_statusout" "pkt = []"
      "on_rx cbs s pkt = status_done (s\<lparr>hw_ops := hw_ops s @ [Read_endpoint 0x00]\<rparr>)"
    | (unexpected) "ctl_state s \<noteq> usbd_ctl_rxdata"
      "\<not> (ctl_state s = usbd_ctl_statusout \<and> pkt = [])"
      "on_rx cbs s pkt = stall_ep0 s"
proof (cases "ctl_state s = usbd_ctl_rxdata")
  case True
  show ?thesis
  proof (cases "remaining s < length pkt")
    case over: True
    with True show ?thesis
      using overflow by (simp add: on_rx_def)
  next
    case fits: False
    show ?thesis
    proof (cases "remaining s - length pkt = 0")
      case all: True
      with True fits show ?thesis
        using complete by (simp add: on_rx_def Let_def)
    next
      case some: False
      with True fits show ?thesis
        using more by (simp add: on_rx_def Let_def)
    qed
  qed
next
  case False
  show ?thesis
  proof (cases "ctl_state s = usbd_ctl_statusout \<and> pkt = []")
    case True
    with False show ?thesis
      using status by (simp add: on_rx_def)
  next
    case other: False
    with False have "on_rx cbs s pkt = stall_ep0 s"
      by (auto simp: on_rx_def)
    with False other show ?thesis
      using unexpected by blast
  qed
qed

lemma on_rx_request [simp]: "request (on_rx cbs s pkt) = request s"
  by (rule on_rx_cases [of s cbs pkt]) simp_all

lemma on_rx_ops:
  "\<exists>xs. hw_ops (on_rx cbs s pkt) = hw_ops s @ xs \<and>
     (\<forall>a. Set_address a \<in> set xs \<longrightarrow>
        ctl_state s = usbd_ctl_statusout \<and> pkt = [] \<and> pending_address s = Some a \<and>
        ctl_state (on_rx cbs s pkt) = usbd_ctl_idle)"
proof (rule on_rx_cases [of s cbs pkt])
  assume "on_rx cbs s pkt = stall_ep0 (s\<lparr>hw_ops := hw_ops s @ [Read_endpoint 0x00]\<rparr>)"
  then show ?thesis by simp
next
  fix s2
  assume s2: "s2 = s\<lparr>hw_ops := hw_ops s @ [Read_endpoint 0x00], rx_data := rx_data s @ pkt,
              remaining := remaining s - length pkt\<rparr>"
    and r: "on_rx cbs s pkt = resolve_request cbs s2 ((request s2)\<lparr>data := rx_data s2\<rparr>)"
  from resolve_request_ops [of cbs s2 "(request s2)\<lparr>data := rx_data s2\<rparr>"]
  obtain xs where xs: "hw_ops (on_rx cbs s pkt) = hw_ops s2 @ xs" "\<forall>a. Set_address a \<notin> set xs"
    using r by auto
  have "hw_ops (on_rx cbs s pkt) = hw_ops s @ (Read_endpoint 0x00 # xs)"
    using xs(1) s2 by simp
  moreover have "\<forall>a. Set_address a \<notin> set (Read_endpoint 0x00 # xs)"
    using xs(2) by simp
  ultimately show ?thesis by blast
next
  assume "on_rx cbs s pkt = s\<lparr>hw_ops := hw_ops s @ [Read_endpoint 0x00],
          rx_data := rx_data s @ pkt, remaining := remaining s - length pkt\<rparr>"
  then show ?thesis by simp
next
  assume "ctl_state s = usbd_ctl_statusout" "pkt = []"
    "on_rx cbs s pkt = status_done (s\<lparr>hw_ops := hw_ops s @ [Read_endpoint 0x00]\<rparr>)"
  then show ?thesis by (cases "pending_address s") simp_all
next
  assume "on_rx cbs s pkt = stall_ep0 s"
  then show ?thesis by simp
qed

lemma on_rx_pending:
  "pending_address (on_rx cbs s pkt) = None \<or>
   pending_address (on_rx cbs s pkt) = pending_address s \<or>
   (req_type (request s) = USB_REQ_STANDARD \<and> bRequest (request s) = USB_STD_SET_ADDRESS \<and>
    pending_address (on_rx cbs s pkt) = Some (ucast (wValue (request s))))"
proof (rule on_rx_cases [of s cbs pkt])
  assume "on_rx cbs s pkt = stall_ep0 (s\<lparr>hw_ops := hw_ops s @ [Read_endpoint 0x00]\<rparr>)"
  then show ?thesis by simp
next
  fix s2
  assume s2: "s2 = s\<lparr>hw_ops := hw_ops s @ [Read_endpoint 0x00], rx_data := rx_data s @ pkt,
              remaining := remaining s - length pkt\<rparr>"
    and r: "on_rx cbs s pkt = resolve_request cbs s2 ((request s2)\<lparr>data := rx_data s2\<rparr>)"
  from resolve_request_pending [of cbs s2 "(request s2)\<lparr>data := rx_data s2\<rparr>"] r s2
  show ?thesis by (auto simp: req_type_def)
next
  assume "on_rx cbs s pkt = s\<lparr>hw_ops := hw_ops s @ [Read_endpoint 0x00],
          rx_data := rx_data s @ pkt, remaining := remaining s - length pkt\<rparr>"
  then show ?thesis by simp
next
  assume "on_rx cbs s pkt = status_done (s\<lparr>hw_ops := hw_ops s @ [Read_endpoint 0x00]\<rparr>)"
  then show ?thesis by simp
next
  assume "on_rx cbs s pkt = stall_ep0 s"
  then show ?thesis by simp
qed

lemma on_tx_request [simp]: "request (on_tx s) = request s"
  by (simp add: on_tx_def)

lemma on_tx_ops:
  "\<exists>xs. hw_ops (on_tx s) = hw_ops s @ xs \<and>
     (\<forall>a. Set_address a \<in> set xs \<longrightarrow>
        ctl_state s = usbd_ctl_statusin \<and> pending_address s = Some a \<and>
        ctl_state (on_tx s) = usbd_ctl_idle)"
  by (cases "pending_address s") (auto simp: on_tx_def)

lemma on_tx_pending:
  "pending_address (on_tx s) = None \<or> pending_address (on_tx s) = pending_address s"
  by (simp add: on_tx_def)

subsection \<open>When the bus address is programmed\<close>

lemma set_address_step:
  assumes "Set_address a \<in> set (ops_of_step cbs s e)"
  shows "((e = Eptx \<and> ctl_state s = usbd_ctl_statusin) \<or>
          (e = Eprx [] \<and> ctl_state s = usbd_ctl_statusout)) \<and>
         pending_address s = Some a \<and>
         ctl_state (ep0_step cbs s e) = usbd_ctl_idle"
proof (cases e)
  case (Epsetup req)
  from on_setup_ops [of cbs s req] obtain xs where
    "hw_ops (on_setup cbs s req) = hw_ops s @ xs" "\<forall>a. Set_address a \<notin> set xs" by blast
  with assms Epsetup show ?thesis by (simp add: ops_of_step_def)
next
  case (Eprx pkt)
  from on_rx_ops [of cbs s pkt] obtain xs where
    "hw_ops (on_rx cbs s pkt) = hw_ops s @ xs"
    "\<forall>a. Set_address a \<in> set xs \<longrightarrow>
        ctl_state s = usbd_ctl_statusout \<and> pkt = [] \<and> pending_address s = Some a \<and>
        ctl_state (on_rx cbs s pkt) = usbd_ctl_idle" by blast
  with assms Eprx show ?thesis by (auto simp: ops_of_step_def)
next
  case Eptx
  from on_tx_ops [of s] obtain xs where
    "hw_ops (on_tx s) = hw_ops s @ xs"
    "\<forall>a. Set_address a \<in> set xs \<longrightarrow>
        ctl_state s = usbd_ctl_statusin \<and> pending_address s = Some a \<and>
        ctl_state (on_tx s) = usbd_ctl_idle" by blast
  with assms Eptx show ?thesis by (simp add: ops_of_step_def)
qed

lemma pending_ok_step:
  assumes "pending_ok s"
  shows "pending_ok (ep0_step cbs s e)"
proof (cases e)
  case (Epsetup req)
  with on_setup_pending [of cbs s req] show ?thesis
    by (auto simp: pending_ok_def)
next
  case (Eprx pkt)
  with on_rx_pending [of cbs s pkt] assms show ?thesis
    by (auto simp: pending_ok_def)
next
  case Eptx
  with on_tx_pending [of s] assms show ?thesis
    by (auto simp: pending_ok_def)
qed

lemma ep0_run_snoc: "ep0_run cbs s (es @ [e]) = ep0_step cbs (ep0_run cbs s es) e"
  by (induction es arbitrary: s) simp_all

lemma last_setup_snoc:
  "last_setup (es @ [e]) = (case e of Epsetup req \<Rightarrow> Some req | _ \<Rightarrow> last_setup es)"
proof (induction es)
  case Nil
  show ?case by (cases e) simp_all
next
  case (Cons x es)
  show ?case
  proof (cases x)
    case (Epsetup r)
    with Cons show ?thesis by (cases e) (simp_all split: option.splits)
  next
    case (Eprx p)
    with Cons show ?thesis by (cases e) simp_all
  next
    case Eptx
    with Cons show ?thesis by (cases e) simp_all
  qed
qed

lemma pending_ok_run: "pending_ok (ep0_run cbs (core_init ep0 cap) es)"
proof (induction es rule: rev_induct)
  case Nil
  show ?case by (simp add: pending_ok_def core_init_def)
next
  case (snoc e es)
  then show ?case by (simp add: ep0_run_snoc pending_ok_step)
qed

lemma request_run:
  "(last_setup es = None \<longrightarrow>
      ctl_state (ep0_run cbs (core_init ep0 cap) es) = usbd_ctl_idle \<and>
      pending_address (ep0_run cbs (core_init ep0 cap) es) = None) \<and>
   (\<forall>r. last_setup es = Some r \<longrightarrow> request (ep0_run cbs (core_init ep0 cap) es) = r)"
proof (induction es rule: rev_induct)
  case Nil
  show ?case by (simp add: core_init_def)
next
  case (snoc e es)
  show ?case
  proof (cases e)
    case (Epsetup req)
    then show ?thesis by (simp add: ep0_run_snoc last_setup_snoc)
  next
    case (Eprx pkt)
    show ?thesis
    proof (cases "last_setup es")
      case None
      with snoc Eprx show ?thesis
        by (simp add: ep0_run_snoc last_setup_snoc on_rx_def)
    next
      case (Some r)
      with snoc Eprx show ?thesis
        by (simp add: ep0_run_snoc last_setup_snoc)
    qed
  next
    case Eptx
    show ?thesis
    proof (cases "last_setup es")
      case None
      with snoc Eptx show ?thesis
        by (simp add: ep0_run_snoc last_setup_snoc on_tx_def)
    next
      case (Some r)
      with snoc Eptx show ?thesis
        by (simp add: ep0_run_snoc last_setup_snoc)
    qed
  qed
qed

text \<open>
  C6. In every run of the control state machine from its initial state, an event makes
  the machine invoke the hardware \<open>set_address\<close> only if that event completes a STATUS
  stage (transmit-complete in \<open>status_in\<close>, or the zero-length packet received in
  \<open>status_out\<close>), the request of the transfer then completed, which is the request of
  the most recent SETUP packet, is a standard SET\_ADDRESS request, and the address
  programmed is the one that request carries; the machine is \<open>idle\<close> afterwards. No
  other event, the SETUP packet of the request included, invokes \<open>set_address\<close>.
\<close>

theorem set_address_only_after_status:
  assumes "s = ep0_run cbs (core_init ep0 cap) es"
    and "Set_address a \<in> set (ops_of_step cbs s e)"
  shows "((e = Eptx \<and> ctl_state s = usbd_ctl_statusin) \<or>
          (e = Eprx [] \<and> ctl_state s = usbd_ctl_statusout)) \<and>
         last_setup es = Some (request s) \<and>
         req_type (request s) = USB_REQ_STANDARD \<and>
         bRequest (request s) = USB_STD_SET_ADDRESS \<and>
         a = ucast (wValue (request s)) \<and>
         ctl_state (ep0_step cbs s e) = usbd_ctl_idle"
proof -
  from set_address_step [OF assms(2)]
  have step: "(e = Eptx \<and> ctl_state s = usbd_ctl_statusin) \<or>
      (e = Eprx [] \<and> ctl_state s = usbd_ctl_statusout)"
    and pend: "pending_address s = Some a"
    and idle: "ctl_state (ep0_step cbs s e) = usbd_ctl_idle"
    by blast+
  from pending_ok_run [of cbs ep0 cap es] pend assms(1)
  have req: "req_type (request s) = USB_REQ_STANDARD"
    "bRequest (request s) = USB_STD_SET_ADDRESS" "a = ucast (wValue (request s))"
    by (simp_all add: pending_ok_def)
  from request_run [of es cbs ep0 cap] pend assms(1)
  have "last_setup es = Some (request s)"
    by (cases "last_setup es") simp_all
  with step req idle show ?thesis by blast
qed

theorem set_address_only_after_status_witness:
  "Set_address 5 \<in> set (ops_of_step no_callbacks
      (ep0_run no_callbacks (core_init 8 64) [Epsetup (set_address_request 5)]) Eptx) \<and>
   ctl_state (ep0_run no_callbacks (core_init 8 64) [Epsetup (set_address_request 5)]) =
     usbd_ctl_statusin \<and>
   last_setup [Epsetup (set_address_request 5)] =
     Some (request (ep0_run no_callbacks (core_init 8 64) [Epsetup (set_address_request 5)])) \<and>
   bRequest (request (ep0_run no_callbacks (core_init 8 64) [Epsetup (set_address_request 5)])) =
     USB_STD_SET_ADDRESS \<and>
   ctl_state (ep0_step no_callbacks
      (ep0_run no_callbacks (core_init 8 64) [Epsetup (set_address_request 5)]) Eptx) =
     usbd_ctl_idle \<and>
   Set_address 5 \<notin> set (ops_of_step no_callbacks
      (ep0_run no_callbacks (core_init 8 64) []) (Epsetup (set_address_request 5)))"
proof -
  have h: "Set_address 5 \<in> set (ops_of_step no_callbacks
      (ep0_run no_callbacks (core_init 8 64) [Epsetup (set_address_request 5)]) Eptx)"
    by code_simp
  have early: "Set_address 5 \<notin> set (ops_of_step no_callbacks
      (ep0_run no_callbacks (core_init 8 64) []) (Epsetup (set_address_request 5)))"
    using set_address_only_after_status [OF refl,
        of 5 no_callbacks 8 64 "[]" "Epsetup (set_address_request 5)"]
    by blast
  from set_address_only_after_status [OF refl h] h early show ?thesis
    by blast
qed

subsection \<open>The DATA-IN stage\<close>

lemma zero_length_packets_simps [simp]:
  "zero_length_packets [] = 0"
  "zero_length_packets (xs @ ys) = zero_length_packets xs + zero_length_packets ys"
  "zero_length_packets (Write_endpoint 0x80 bs # xs) =
     (if bs = [] then 1 else 0) + zero_length_packets xs"
  by (simp_all add: zero_length_packets_def)

lemma written_append [simp]: "written (xs @ ys) = written xs @ written ys"
  by (induction xs rule: written.induct) simp_all

lemma stall_only_silent:
  assumes "stall_only xs"
  shows "zero_length_packets xs = 0" and "written xs = []"
proof -
  from assms show "zero_length_packets xs = 0"
    by (auto simp: zero_length_packets_def stall_only_def filter_empty_conv)
  from assms show "written xs = []"
    by (induction xs rule: written.induct) (auto simp: stall_only_def)
qed

lemma run_Eptx_Suc:
  "ep0_run cbs s (replicate (Suc k) Eptx) = ep0_run cbs (on_tx s) (replicate k Eptx)"
  by simp

text \<open>
  In \<open>tx_data\<close>, with \<open>q\<close> full packets before the last one: after \<open>q + 1\<close> transmit
  events every byte has been written, none of the packets was empty unless there was
  nothing to send, and the state is \<open>tx_data_last\<close>.
\<close>

lemma tx_data_drains:
  assumes "ctl_state s = usbd_ctl_txdata" and "0 < packet_size s"
  shows "ctl_state (ep0_run cbs s (replicate ((length (tx_data s) - 1) div packet_size s + 1) Eptx))
           = usbd_ctl_lastdata \<and>
         (\<forall>m \<le> (length (tx_data s) - 1) div packet_size s.
            ctl_state (ep0_run cbs s (replicate m Eptx)) = usbd_ctl_txdata) \<and>
         (\<exists>ws. hw_ops (ep0_run cbs s
                  (replicate ((length (tx_data s) - 1) div packet_size s + 1) Eptx))
                  = hw_ops s @ ws \<and>
               written ws = tx_data s \<and>
               zero_length_packets ws = (if tx_data s = [] then 1 else 0))"
  using assms
proof (induction "length (tx_data s)" arbitrary: s rule: less_induct)
  case less
  let ?M = "packet_size s"
  let ?d = "tx_data s"
  show ?case
  proof (cases "length ?d \<le> ?M")
    case True
    with less.prems have q: "(length ?d - Suc 0) div ?M = 0"
      by simp
    from True less.prems have step: "on_tx s =
        s\<lparr>tx_data := [], hw_ops := hw_ops s @ [Write_endpoint 0x80 ?d],
          ctl_state := usbd_ctl_lastdata\<rparr>"
      by (simp add: on_tx_def send_packet_def Let_def min_def)
    show ?thesis
      using less.prems by (simp add: q step)
  next
    case False
    then have long: "?M < length ?d" by simp
    define s' where "s' = on_tx s"
    from long less.prems have step: "s' =
        s\<lparr>tx_data := drop ?M ?d, hw_ops := hw_ops s @ [Write_endpoint 0x80 (take ?M ?d)]\<rparr>"
      by (simp add: s'_def on_tx_def send_packet_def Let_def min_def)
    have q: "(length ?d - 1) div ?M = Suc ((length (tx_data s') - 1) div packet_size s')"
    proof -
      from long less.prems have "length ?d - 1 = (length ?d - ?M - 1) + ?M" by simp
      then have "(length ?d - 1) div ?M = (length ?d - ?M - 1) div ?M + 1"
        using less.prems(2) by (metis div_add_self2 less_numeral_extra(3))
      then show ?thesis by (simp add: step)
    qed
    have smaller: "length (tx_data s') < length ?d"
      using long less.prems by (simp add: step)
    have pre: "ctl_state s' = usbd_ctl_txdata" "0 < packet_size s'"
      using less.prems by (simp_all add: step)
    note ih = less.hyps [OF smaller pre]
    from ih have ih_a: "ctl_state (ep0_run cbs s'
        (replicate ((length (tx_data s') - 1) div packet_size s' + 1) Eptx)) = usbd_ctl_lastdata"
      by blast
    from ih obtain ws where ws:
      "hw_ops (ep0_run cbs s'
          (replicate ((length (tx_data s') - 1) div packet_size s' + 1) Eptx)) = hw_ops s' @ ws"
      "written ws = tx_data s'"
      "zero_length_packets ws = (if tx_data s' = [] then 1 else 0)"
      by blast
    have run: "ep0_run cbs s (replicate (Suc k) Eptx) = ep0_run cbs s' (replicate k Eptx)" for k
      by (simp add: s'_def)
    have count: "(length ?d - 1) div ?M + 1 =
        Suc ((length (tx_data s') - 1) div packet_size s' + 1)"
      using q by simp
    have nonempty: "tx_data s' \<noteq> []" "take ?M ?d \<noteq> []" "?d \<noteq> []"
      using long less.prems by (auto simp: step)
    have a: "ctl_state (ep0_run cbs s (replicate ((length ?d - 1) div ?M + 1) Eptx))
        = usbd_ctl_lastdata"
      unfolding count run by (rule ih_a)
    have b: "\<forall>m \<le> (length ?d - 1) div ?M.
        ctl_state (ep0_run cbs s (replicate m Eptx)) = usbd_ctl_txdata"
    proof (intro allI impI)
      fix m assume m: "m \<le> (length ?d - 1) div ?M"
      show "ctl_state (ep0_run cbs s (replicate m Eptx)) = usbd_ctl_txdata"
      proof (cases m)
        case 0
        with less.prems show ?thesis by simp
      next
        case (Suc k)
        with m q have "k \<le> (length (tx_data s') - 1) div packet_size s'" by simp
        with ih have "ctl_state (ep0_run cbs s' (replicate k Eptx)) = usbd_ctl_txdata"
          by blast
        with Suc show ?thesis by (simp only: run)
      qed
    qed
    have "hw_ops s' @ ws = hw_ops s @ (Write_endpoint 0x80 (take ?M ?d) # ws)"
      by (simp add: step)
    with ws(1) have c: "hw_ops (ep0_run cbs s (replicate ((length ?d - 1) div ?M + 1) Eptx))
        = hw_ops s @ (Write_endpoint 0x80 (take ?M ?d) # ws)"
      unfolding count run by simp
    have d: "written (Write_endpoint 0x80 (take ?M ?d) # ws) = ?d"
      using ws(2) by (simp add: step)
    have e: "zero_length_packets (Write_endpoint 0x80 (take ?M ?d) # ws)
        = (if ?d = [] then 1 else 0)"
      using ws(3) nonempty by simp
    from a b c d e show ?thesis by blast
  qed
qed

text \<open>
  In \<open>tx_data_need_zlp\<close>, with a response of \<open>q\<close> full packets: after \<open>q + 1\<close> transmit
  events every byte has been written, one empty packet after them, and the state is
  \<open>tx_data_last\<close>.
\<close>

lemma tx_data_need_zlp_drains:
  assumes "ctl_state s = usbd_ctl_ztxdata" and "0 < packet_size s"
    and "length (tx_data s) mod packet_size s = 0"
  shows "ctl_state (ep0_run cbs s (replicate (length (tx_data s) div packet_size s + 1) Eptx))
           = usbd_ctl_lastdata \<and>
         (\<forall>m \<le> length (tx_data s) div packet_size s.
            ctl_state (ep0_run cbs s (replicate m Eptx)) = usbd_ctl_ztxdata) \<and>
         (\<exists>ws. hw_ops (ep0_run cbs s
                  (replicate (length (tx_data s) div packet_size s + 1) Eptx))
                  = hw_ops s @ ws \<and>
               written ws = tx_data s \<and>
               zero_length_packets ws = 1)"
  using assms
proof (induction "length (tx_data s)" arbitrary: s rule: less_induct)
  case less
  let ?M = "packet_size s"
  let ?d = "tx_data s"
  show ?case
  proof (cases "?d = []")
    case True
    with less.prems have step: "on_tx s =
        s\<lparr>tx_data := [], hw_ops := hw_ops s @ [Write_endpoint 0x80 []],
          ctl_state := usbd_ctl_lastdata\<rparr>"
      by (simp add: on_tx_def send_packet_def Let_def)
    show ?thesis
      using less.prems True by (simp add: step)
  next
    case False
    with less.prems have long: "?M \<le> length ?d"
      by (metis length_0_conv mod_less not_le_imp_less)
    define s' where "s' = on_tx s"
    from False less.prems have step: "s' =
        s\<lparr>tx_data := drop ?M ?d, hw_ops := hw_ops s @ [Write_endpoint 0x80 (take ?M ?d)]\<rparr>"
      using long by (simp add: s'_def on_tx_def send_packet_def Let_def min_def)
    have q: "length ?d div ?M = Suc (length (tx_data s') div packet_size s')"
      using long less.prems(2) by (simp add: step le_div_geq)
    have smaller: "length (tx_data s') < length ?d"
      using False less.prems by (simp add: step)
    have pre: "ctl_state s' = usbd_ctl_ztxdata" "0 < packet_size s'"
      "length (tx_data s') mod packet_size s' = 0"
      using less.prems long by (simp_all add: step le_mod_geq [symmetric])
    note ih = less.hyps [OF smaller pre]
    from ih obtain ws where ws:
      "hw_ops (ep0_run cbs s'
          (replicate (length (tx_data s') div packet_size s' + 1) Eptx)) = hw_ops s' @ ws"
      "written ws = tx_data s'"
      "zero_length_packets ws = 1"
      by blast
    have nonempty: "take ?M ?d \<noteq> []"
      using False less.prems by auto
    have a: "ctl_state (ep0_run cbs s (replicate (length ?d div ?M + 1) Eptx))
        = usbd_ctl_lastdata"
      using ih by (simp add: q s'_def [symmetric])
    have b: "\<forall>m \<le> length ?d div ?M.
        ctl_state (ep0_run cbs s (replicate m Eptx)) = usbd_ctl_ztxdata"
    proof (intro allI impI)
      fix m assume m: "m \<le> length ?d div ?M"
      show "ctl_state (ep0_run cbs s (replicate m Eptx)) = usbd_ctl_ztxdata"
      proof (cases m)
        case 0
        with less.prems show ?thesis by simp
      next
        case (Suc k)
        with m q have "k \<le> length (tx_data s') div packet_size s'" by simp
        with ih Suc show ?thesis by (simp add: s'_def [symmetric])
      qed
    qed
    have c: "hw_ops (ep0_run cbs s (replicate (length ?d div ?M + 1) Eptx))
        = hw_ops s @ (Write_endpoint 0x80 (take ?M ?d) # ws)"
      using ws(1) by (simp add: q s'_def [symmetric]) (simp add: step)
    have d: "written (Write_endpoint 0x80 (take ?M ?d) # ws) = ?d"
      using ws(2) by (simp add: step)
    have e: "zero_length_packets (Write_endpoint 0x80 (take ?M ?d) # ws) = 1"
      using ws(3) nonempty by simp
    from a b c d e show ?thesis by blast
  qed
qed

lemma last_packet_confirmed:
  assumes "ctl_state (ep0_run cbs s (replicate k Eptx)) = usbd_ctl_lastdata"
  shows "ctl_state (ep0_run cbs s (replicate (Suc k) Eptx)) = usbd_ctl_statusout"
    and "hw_ops (ep0_run cbs s (replicate (Suc k) Eptx)) = hw_ops (ep0_run cbs s (replicate k Eptx))"
proof -
  have "replicate (Suc k) Eptx = replicate k Eptx @ [Eptx]"
    by (simp add: replicate_append_same)
  then have "ep0_run cbs s (replicate (Suc k) Eptx) = on_tx (ep0_run cbs s (replicate k Eptx))"
    by (simp only: ep0_run_snoc ep0_step.simps)
  with assms show
    "ctl_state (ep0_run cbs s (replicate (Suc k) Eptx)) = usbd_ctl_statusout"
    "hw_ops (ep0_run cbs s (replicate (Suc k) Eptx)) = hw_ops (ep0_run cbs s (replicate k Eptx))"
    by (simp_all add: on_tx_def)
qed

lemma data_in_setup:
  assumes "0 < unat (wLength req)" and "req_direction req = USB_REQ_DEVTOHOST"
    and "control_chain cbs (begin_transfer s req) req = (usbd_ack, d, s1)"
  shows "on_setup cbs s req =
           on_tx (s1\<lparr>tx_data := d,
                     ctl_state :=
                       (if needs_zlp (length d) (packet_size s) (unat (wLength req))
                        then usbd_ctl_ztxdata else usbd_ctl_txdata)\<rparr>)"
proof -
  from assms(2) have dir: "req_direction req \<noteq> USB_REQ_HOSTTODEV"
    by (simp add: USB_REQ_DEVTOHOST_def USB_REQ_HOSTTODEV_def)
  have ps: "packet_size s1 = packet_size s"
    using control_chain_keeps(3) [OF assms(3)] by simp
  show ?thesis
    using assms(1) dir by (simp add: on_setup_def Let_def assms(3) ps on_tx_def)
qed

text \<open>
  C7. An accepted DATA-IN transfer: a device-to-host request with \<open>wLength > 0\<close> whose
  callback chain answers \<open>ack\<close> with the response \<open>d\<close>, on a control endpoint with a
  positive packet size. The transfer reaches \<open>status_out\<close> after a known number of
  transmit events and not before; up to there the bytes written to the endpoint are
  exactly \<open>d\<close>, and the number of zero-length packets written is one if the length of
  \<open>d\<close> is an exact multiple of the packet size and less than \<open>wLength\<close>, and none
  otherwise; in particular none when the length is not a multiple of the packet size.
\<close>

theorem data_in_zero_length_packet:
  assumes "0 < packet_size s" and "0 < unat (wLength req)"
    and "req_direction req = USB_REQ_DEVTOHOST"
    and "control_chain cbs (begin_transfer s req) req = (usbd_ack, d, s1)"
    and "n = (if needs_zlp (length d) (packet_size s) (unat (wLength req))
              then length d div packet_size s + 1
              else (length d - 1) div packet_size s + 1)"
  shows "ctl_state (ep0_run cbs s (Epsetup req # replicate n Eptx)) = usbd_ctl_statusout \<and>
         (\<forall>m<n. ctl_state (ep0_run cbs s (Epsetup req # replicate m Eptx))
                  \<noteq> usbd_ctl_statusout) \<and>
         zero_length_packets (ops_of_run cbs s (Epsetup req # replicate n Eptx)) =
           (if length d mod packet_size s = 0 \<and> length d < unat (wLength req) then 1 else 0) \<and>
         written (ops_of_run cbs s (Epsetup req # replicate n Eptx)) = d"
proof -
  let ?M = "packet_size s"
  let ?z = "needs_zlp (length d) ?M (unat (wLength req))"
  define t where "t = s1\<lparr>tx_data := d,
      ctl_state := (if ?z then usbd_ctl_ztxdata else usbd_ctl_txdata)\<rparr>"
  have t: "tx_data t = d" "packet_size t = ?M" "0 < packet_size t"
    "ctl_state t = (if ?z then usbd_ctl_ztxdata else usbd_ctl_txdata)"
    using control_chain_keeps(3) [OF assms(4)] assms(1) by (simp_all add: t_def)
  from control_chain_keeps(5) [OF assms(4)] obtain xs where
    xs: "hw_ops t = hw_ops s @ xs" "stall_only xs"
    by (auto simp: t_def)
  have run: "ep0_run cbs s (Epsetup req # replicate k Eptx) = ep0_run cbs t (replicate (Suc k) Eptx)"
    for k
    using data_in_setup [OF assms(2,3,4)] by (simp add: t_def)
  have main: "ctl_state (ep0_run cbs t (replicate n Eptx)) = usbd_ctl_lastdata \<and>
      (\<forall>m<n. ctl_state (ep0_run cbs t (replicate m Eptx)) \<noteq> usbd_ctl_statusout \<and>
              ctl_state (ep0_run cbs t (replicate m Eptx)) \<noteq> usbd_ctl_lastdata) \<and>
      (\<exists>ws. hw_ops (ep0_run cbs t (replicate n Eptx)) = hw_ops t @ ws \<and> written ws = d \<and>
         zero_length_packets ws = (if ?z then 1 else 0))"
  proof (cases ?z)
    case True
    then have st: "ctl_state t = usbd_ctl_ztxdata"
      and dv: "length (tx_data t) mod packet_size t = 0"
      using t by (simp_all add: needs_zlp_def)
    have n: "length d div packet_size t + 1 = n"
      using True t(2) assms(5) by simp
    note drains = tx_data_need_zlp_drains [OF st t(3) dv, of cbs, unfolded t(1), unfolded n]
    from drains have A: "ctl_state (ep0_run cbs t (replicate n Eptx)) = usbd_ctl_lastdata"
      and B: "\<forall>m \<le> length d div packet_size t.
                ctl_state (ep0_run cbs t (replicate m Eptx)) = usbd_ctl_ztxdata"
      and C: "\<exists>ws. hw_ops (ep0_run cbs t (replicate n Eptx)) = hw_ops t @ ws \<and>
                written ws = d \<and> zero_length_packets ws = 1"
      by blast+
    have "\<forall>m<n. ctl_state (ep0_run cbs t (replicate m Eptx)) \<noteq> usbd_ctl_statusout \<and>
              ctl_state (ep0_run cbs t (replicate m Eptx)) \<noteq> usbd_ctl_lastdata"
    proof (intro allI impI)
      fix m assume "m < n"
      with n have "m \<le> length d div packet_size t" by simp
      with B have "ctl_state (ep0_run cbs t (replicate m Eptx)) = usbd_ctl_ztxdata" by blast
      then show "ctl_state (ep0_run cbs t (replicate m Eptx)) \<noteq> usbd_ctl_statusout \<and>
              ctl_state (ep0_run cbs t (replicate m Eptx)) \<noteq> usbd_ctl_lastdata"
        by simp
    qed
    with A C True show ?thesis by simp
  next
    case False
    then have st: "ctl_state t = usbd_ctl_txdata"
      using t by simp
    have n: "(length d - 1) div packet_size t + 1 = n"
      using False t(2) assms(5) by simp
    from False assms(2) have ne: "d \<noteq> []"
      by (auto simp: needs_zlp_def)
    note drains = tx_data_drains [OF st t(3), of cbs, unfolded t(1), unfolded n]
    from drains have A: "ctl_state (ep0_run cbs t (replicate n Eptx)) = usbd_ctl_lastdata"
      and B: "\<forall>m \<le> (length d - 1) div packet_size t.
                ctl_state (ep0_run cbs t (replicate m Eptx)) = usbd_ctl_txdata"
      and C: "\<exists>ws. hw_ops (ep0_run cbs t (replicate n Eptx)) = hw_ops t @ ws \<and>
                written ws = d \<and> zero_length_packets ws = (if d = [] then 1 else 0)"
      by blast+
    have "\<forall>m<n. ctl_state (ep0_run cbs t (replicate m Eptx)) \<noteq> usbd_ctl_statusout \<and>
              ctl_state (ep0_run cbs t (replicate m Eptx)) \<noteq> usbd_ctl_lastdata"
    proof (intro allI impI)
      fix m assume "m < n"
      with n have "m \<le> (length d - 1) div packet_size t" by simp
      with B have "ctl_state (ep0_run cbs t (replicate m Eptx)) = usbd_ctl_txdata" by blast
      then show "ctl_state (ep0_run cbs t (replicate m Eptx)) \<noteq> usbd_ctl_statusout \<and>
              ctl_state (ep0_run cbs t (replicate m Eptx)) \<noteq> usbd_ctl_lastdata"
        by simp
    qed
    with A C False ne show ?thesis by simp
  qed
  then obtain ws where last: "ctl_state (ep0_run cbs t (replicate n Eptx)) = usbd_ctl_lastdata"
    and before: "\<forall>m<n. ctl_state (ep0_run cbs t (replicate m Eptx)) \<noteq> usbd_ctl_statusout \<and>
              ctl_state (ep0_run cbs t (replicate m Eptx)) \<noteq> usbd_ctl_lastdata"
    and ws: "hw_ops (ep0_run cbs t (replicate n Eptx)) = hw_ops t @ ws" "written ws = d"
      "zero_length_packets ws = (if ?z then 1 else 0)"
    by blast
  have a: "ctl_state (ep0_run cbs s (Epsetup req # replicate n Eptx)) = usbd_ctl_statusout"
    unfolding run by (rule last_packet_confirmed(1) [OF last])
  have b: "\<forall>m<n. ctl_state (ep0_run cbs s (Epsetup req # replicate m Eptx)) \<noteq> usbd_ctl_statusout"
  proof (intro allI impI)
    fix m assume m: "m < n"
    show "ctl_state (ep0_run cbs s (Epsetup req # replicate m Eptx)) \<noteq> usbd_ctl_statusout"
    proof (cases "Suc m = n")
      case True
      with last show ?thesis unfolding run by simp
    next
      case False
      with m have "Suc m < n" by simp
      with before show ?thesis unfolding run by blast
    qed
  qed
  have ops: "ops_of_run cbs s (Epsetup req # replicate n Eptx) = xs @ ws"
    unfolding ops_of_run_def run last_packet_confirmed(2) [OF last] ws(1) xs(1) by simp
  have c: "zero_length_packets (ops_of_run cbs s (Epsetup req # replicate n Eptx)) =
      (if length d mod ?M = 0 \<and> length d < unat (wLength req) then 1 else 0)"
    unfolding ops using ws(3) stall_only_silent(1) [OF xs(2)] by (simp add: needs_zlp_def)
  have d: "written (ops_of_run cbs s (Epsetup req # replicate n Eptx)) = d"
    unfolding ops using ws(2) stall_only_silent(2) [OF xs(2)] by simp
  from a b c d show ?thesis by simp
qed

theorem data_in_zero_length_packet_witness:
  "ctl_state (ep0_run (descriptor_callbacks [1, 2, 3, 4, 5, 6, 7, 8]) (core_init 8 64)
      (Epsetup (get_descriptor_request 64) # replicate 2 Eptx)) = usbd_ctl_statusout \<and>
   ctl_state (ep0_run (descriptor_callbacks [1, 2, 3, 4, 5, 6, 7, 8]) (core_init 8 64)
      (Epsetup (get_descriptor_request 64) # replicate 1 Eptx)) \<noteq> usbd_ctl_statusout \<and>
   zero_length_packets (ops_of_run (descriptor_callbacks [1, 2, 3, 4, 5, 6, 7, 8])
      (core_init 8 64) (Epsetup (get_descriptor_request 64) # replicate 2 Eptx)) = 1 \<and>
   written (ops_of_run (descriptor_callbacks [1, 2, 3, 4, 5, 6, 7, 8])
      (core_init 8 64) (Epsetup (get_descriptor_request 64) # replicate 2 Eptx)) =
     [1, 2, 3, 4, 5, 6, 7, 8]"
proof -
  let ?d = "[1, 2, 3, 4, 5, 6, 7, 8] :: 8 word list"
  have a: "0 < packet_size (core_init 8 64)"
    by (simp add: core_init_def)
  have b: "0 < unat (wLength (get_descriptor_request 64))"
    by (simp add: get_descriptor_request_def)
  have c: "req_direction (get_descriptor_request 64) = USB_REQ_DEVTOHOST"
    by (simp add: req_direction_def get_descriptor_request_def USB_REQ_DIRECTION_def
        USB_REQ_DEVTOHOST_def)
  have d: "control_chain (descriptor_callbacks ?d)
      (begin_transfer (core_init 8 64) (get_descriptor_request 64)) (get_descriptor_request 64) =
      (usbd_ack, ?d, begin_transfer (core_init 8 64) (get_descriptor_request 64))"
    by code_simp
  have e: "(2 :: nat) =
      (if needs_zlp (length ?d) (packet_size (core_init 8 64))
            (unat (wLength (get_descriptor_request 64)))
       then length ?d div packet_size (core_init 8 64) + 1
       else (length ?d - 1) div packet_size (core_init 8 64) + 1)"
    by (simp add: needs_zlp_def core_init_def get_descriptor_request_def)
  have f: "length ?d mod packet_size (core_init 8 64) = 0 \<and>
      length ?d < unat (wLength (get_descriptor_request 64))"
    by (simp add: core_init_def get_descriptor_request_def)
  note run = data_in_zero_length_packet [OF a b c d e]
  have one: "(1 :: nat) < 2"
    by simp
  from run have t1: "ctl_state (ep0_run (descriptor_callbacks ?d) (core_init 8 64)
      (Epsetup (get_descriptor_request 64) # replicate 2 Eptx)) = usbd_ctl_statusout"
    by blast
  from run one have t2: "ctl_state (ep0_run (descriptor_callbacks ?d) (core_init 8 64)
      (Epsetup (get_descriptor_request 64) # replicate 1 Eptx)) \<noteq> usbd_ctl_statusout"
    by blast
  from run have "zero_length_packets (ops_of_run (descriptor_callbacks ?d)
      (core_init 8 64) (Epsetup (get_descriptor_request 64) # replicate 2 Eptx)) =
      (if length ?d mod packet_size (core_init 8 64) = 0 \<and>
          length ?d < unat (wLength (get_descriptor_request 64)) then 1 else 0)"
    by blast
  then have t3: "zero_length_packets (ops_of_run (descriptor_callbacks ?d)
      (core_init 8 64) (Epsetup (get_descriptor_request 64) # replicate 2 Eptx)) = 1"
    by (simp only: f simp_thms if_True)
  from run have t4: "written (ops_of_run (descriptor_callbacks ?d)
      (core_init 8 64) (Epsetup (get_descriptor_request 64) # replicate 2 Eptx)) = ?d"
    by blast
  from t1 t2 t3 t4 show ?thesis
    by blast
qed

end
